theory Spec2Isabelle
  imports Main "HOL-Library.AList"
begin

section \<open>Faults\<close>

text \<open>
  The solver signals failure by throwing \<^verbatim>\<open>std::runtime_error\<close> (an unknown
  identifier, or a pool that is exhausted at commit time) and
  \<^verbatim>\<open>std::out_of_range\<close>. An unchecked read or write outside a
  \<^verbatim>\<open>std::vector\<close>, and the dereference of an end iterator, have no defined
  behaviour in C++; the model stops such a run with the fault \<open>Undefined\<close>.
  C++ \<^verbatim>\<open>int\<close> is modelled by \<open>int\<close>; signed overflow is not modelled.
\<close>

datatype fault =
    NotFound string    \<comment> \<open>\<^verbatim>\<open>std::runtime_error\<close>: an identifier that is looked up does not exist\<close>
  | Exhausted string   \<comment> \<open>\<^verbatim>\<open>std::runtime_error\<close>: a pool has no capacity left at commit time\<close>
  | Unassigned string  \<comment> \<open>\<^verbatim>\<open>std::runtime_error\<close>: a patient in a room has no admission day\<close>
  | OutOfRange         \<comment> \<open>\<^verbatim>\<open>std::out_of_range\<close>\<close>
  | LengthError        \<comment> \<open>a \<^verbatim>\<open>std::vector\<close> constructed with a negative size\<close>
  | Undefined          \<comment> \<open>no defined behaviour\<close>

definition ebind :: "fault + 'a \<Rightarrow> ('a \<Rightarrow> fault + 'b) \<Rightarrow> fault + 'b" where
  "ebind m f = (case m of Inl e \<Rightarrow> Inl e | Inr x \<Rightarrow> f x)"

section \<open>Unsigned arithmetic\<close>

text \<open>
  Where an \<^verbatim>\<open>int\<close> meets the \<^verbatim>\<open>size()\<close> of a container in one arithmetic
  expression, C++ converts the \<^verbatim>\<open>int\<close> to \<^verbatim>\<open>size_t\<close>, computes modulo
  \<open>2 ^ 64\<close>, and the assignment to an \<^verbatim>\<open>int\<close> narrows the result to 32 bits in
  two's complement. The containers themselves hold fewer than \<open>2 ^ 31\<close> elements, so
  that a size or a distance stored in an \<^verbatim>\<open>int\<close> is the size.
\<close>

definition size_t :: "int \<Rightarrow> int" where
  "size_t x = x mod 2 ^ 64"

definition to_int :: "int \<Rightarrow> int" where
  "to_int v = (v + 2 ^ 31) mod 2 ^ 32 - 2 ^ 31"

text \<open>\<^verbatim>\<open>penalty += n * weight\<close> for an \<^verbatim>\<open>int\<close> penalty, a size \<open>n\<close> and an \<^verbatim>\<open>int\<close> weight.\<close>

definition add_sized :: "int \<Rightarrow> int \<Rightarrow> int \<Rightarrow> int" where
  "add_sized penalty n weight = to_int (size_t (size_t penalty + size_t (n * size_t weight)))"

text \<open>\<^verbatim>\<open>int skillIndex = (index * shift_types.size()) + shiftIndex\<close>.\<close>

definition skill_index :: "int \<Rightarrow> nat \<Rightarrow> nat \<Rightarrow> int" where
  "skill_index index n shiftIndex = to_int (size_t (size_t (size_t index * int n) + size_t (int shiftIndex)))"

section \<open>Problem definition\<close>

record Patient =
  pat_id :: string
  mandatory :: bool
  pat_gender :: string
  pat_age_group :: string
  pat_length_of_stay :: int
  surgery_release_day :: int
  surgery_due_day :: int
  surgery_duration :: int
  surgeon_id :: string
  incompatible_room_ids :: "string list"
  pat_workload_produced :: "int list"
  pat_skill_level_required :: "int list"

record Occupant =
  occ_id :: string
  occ_gender :: string
  occ_age_group :: string
  occ_length_of_stay :: int
  occ_room_id :: string
  occ_workload_produced :: "int list"
  occ_skill_level_required :: "int list"

record Surgeon =
  sur_id :: string
  max_surgery_time :: "int list"

record Room =
  room_ident :: string
  capacity :: int

record OperatingTheater =
  ot_id :: string
  availability :: "int list"

record WorkingShift =
  ws_day :: int
  ws_shift :: string
  max_load :: int

record Nurse =
  nurse_id :: string
  skill_level :: int
  working_shifts :: "WorkingShift list"

record Weights =
  room_mixed_age :: int
  room_nurse_skill :: int
  continuity_of_care :: int
  nurse_eccessive_workload :: int
  open_operating_theater :: int
  surgeon_transfer :: int
  patient_delay :: int
  unscheduled_optional :: int

record ProblemInstance =
  days :: int
  shift_types :: "string list"
  age_groups :: "string list"
  weights :: Weights
  rooms :: "Room list"
  theaters :: "OperatingTheater list"
  surgeons :: "Surgeon list"
  nurses :: "Nurse list"
  patients :: "Patient list"
  occupants :: "Occupant list"

section \<open>Dynamic state and solutions\<close>

text \<open>
  The per-day tables of a room or theater state are containers keyed by the day: the
  solver reads them with \<^verbatim>\<open>find\<close>, \<^verbatim>\<open>count\<close>, \<^verbatim>\<open>at\<close> and
  \<^verbatim>\<open>operator[]\<close>, writes them with \<^verbatim>\<open>operator[]\<close> on a default-constructed
  state, and iterates over their entries. They are association lists with one entry per
  key here. The evaluator only counts and sums over the entries, so the order of the
  keys does not influence any result.
\<close>

type_synonym 'v day_table = "(int \<times> 'v) list"

text \<open>\<^verbatim>\<open>m[d]\<close> used as a value: an absent key reads as the default.\<close>

definition value_at :: "'v day_table \<Rightarrow> int \<Rightarrow> 'v \<Rightarrow> 'v" where
  "value_at m d dflt = (case map_of m d of None \<Rightarrow> dflt | Some v \<Rightarrow> v)"

text \<open>The table after \<^verbatim>\<open>m[d]\<close> was evaluated: an absent key is inserted with the default.\<close>

definition subscript :: "'v day_table \<Rightarrow> int \<Rightarrow> 'v \<Rightarrow> 'v day_table" where
  "subscript m d dflt = (case map_of m d of None \<Rightarrow> m @ [(d, dflt)] | Some v \<Rightarrow> m)"

text \<open>\<^verbatim>\<open>m[d] = v\<close>.\<close>

definition assign_at :: "'v day_table \<Rightarrow> int \<Rightarrow> 'v \<Rightarrow> 'v day_table" where
  "assign_at m d v = AList.update d v m"

text \<open>\<^verbatim>\<open>m[d].push_back(x)\<close>.\<close>

definition push_back_at :: "'v list day_table \<Rightarrow> int \<Rightarrow> 'v \<Rightarrow> 'v list day_table" where
  "push_back_at m d x = assign_at m d (value_at m d [] @ [x])"

text \<open>The days visited by \<^verbatim>\<open>for (int d = a; d < b; ++d)\<close>.\<close>

definition day_range :: "int \<Rightarrow> int \<Rightarrow> int list" where
  "day_range a b = [a..b - 1]"

text \<open>The element a \<^verbatim>\<open>std::find_if\<close> iterator points to, updated in place.\<close>

fun update_first :: "('a \<Rightarrow> bool) \<Rightarrow> ('a \<Rightarrow> 'a) \<Rightarrow> 'a list \<Rightarrow> 'a list" where
  "update_first P f [] = []"
| "update_first P f (x # xs) = (if P x then f x # xs else x # update_first P f xs)"

record RoomState =
  room_info :: Room
  capacity_per_day :: "int day_table"
  patients_per_day :: "Patient list day_table"
  occupants_per_day :: "Occupant list day_table"

record OperatingTheaterState =
  theater_info :: OperatingTheater
  availability_per_day :: "int day_table"
  ot_patients_per_day :: "Patient list day_table"

record PatientAssignment =
  pa_id :: string
  pa_admission_day :: "int option"
  pa_room :: "string option"
  pa_operating_theater :: "string option"

record ShiftAssignment =
  sa_day :: int
  sa_shift :: string
  sa_rooms :: "string list"

record NurseAssignment =
  na_id :: string
  assignments :: "ShiftAssignment list"

record Solution =
  roomStates :: "RoomState list"
  theaterStates :: "OperatingTheaterState list"
  sol_patients :: "PatientAssignment list"
  sol_nurses :: "NurseAssignment list"
  soft_constraints :: "int list"
  total_soft_constraints :: int

record EncodedPatientSolution =
  patient_id :: string
  admission_day :: int
  room_id :: string

record EncodedSolution =
  encoded_patients :: "EncodedPatientSolution list"
  encoded_nurses :: "string list list"

record Solver =
  problem :: ProblemInstance
  originalProblem :: ProblemInstance
  solution :: Solution

text \<open>The constructor keeps two copies of the instance and starts with an empty solution.\<close>

definition new_Solver :: "ProblemInstance \<Rightarrow> Solver" where
  "new_Solver problemInstance =
     \<lparr>problem = problemInstance, originalProblem = problemInstance,
      solution = \<lparr>roomStates = [], theaterStates = [], sol_patients = [], sol_nurses = [],
                  soft_constraints = [], total_soft_constraints = 0\<rparr>\<rparr>"

section \<open>Dynamic state initializer\<close>

definition init_room :: "ProblemInstance \<Rightarrow> Room \<Rightarrow> RoomState" where
  "init_room pr room =
     fold (\<lambda>occupant rs.
             if occ_room_id occupant = room_ident room
             then fold (\<lambda>day rs'.
                          rs'\<lparr>occupants_per_day := push_back_at (occupants_per_day rs') day occupant,
                              capacity_per_day :=
                                assign_at (capacity_per_day rs') day
                                  (value_at (capacity_per_day rs') day 0 - 1)\<rparr>)
                       (day_range 0 (min (occ_length_of_stay occupant) (days pr))) rs
             else rs)
          (occupants pr)
          \<lparr>room_info = room,
           capacity_per_day = fold (\<lambda>day m. assign_at m day (capacity room)) (day_range 0 (days pr)) [],
           patients_per_day = [], occupants_per_day = []\<rparr>"

fun init_availability :: "int list \<Rightarrow> int list \<Rightarrow> int day_table \<Rightarrow> fault + int day_table" where
  "init_availability av [] m = Inr m"
| "init_availability av (day # ds) m =
     (if 0 \<le> day \<and> day < int (length av)
      then init_availability av ds (assign_at m day (av ! nat day))
      else Inl Undefined)"

definition init_theater :: "ProblemInstance \<Rightarrow> OperatingTheater \<Rightarrow> fault + OperatingTheaterState" where
  "init_theater pr theater =
     ebind (init_availability (availability theater) (day_range 0 (days pr)) [])
       (\<lambda>m. Inr \<lparr>theater_info = theater, availability_per_day = m, ot_patients_per_day = []\<rparr>)"

fun init_theaters :: "ProblemInstance \<Rightarrow> OperatingTheater list \<Rightarrow> fault + OperatingTheaterState list" where
  "init_theaters pr [] = Inr []"
| "init_theaters pr (theater # ts) =
     ebind (init_theater pr theater) (\<lambda>t. ebind (init_theaters pr ts) (\<lambda>tss. Inr (t # tss)))"

definition initializeDynamicStates :: "Solver \<Rightarrow> fault + Solver" where
  "initializeDynamicStates s =
     (let prob = (problem s)\<lparr>surgeons := surgeons (originalProblem s)\<rparr> in
      ebind (init_theaters prob (theaters prob))
        (\<lambda>tss. Inr (s\<lparr>problem := prob,
                       solution := \<lparr>roomStates = map (init_room prob) (rooms prob),
                                    theaterStates = tss, sol_patients = [], sol_nurses = [],
                                    soft_constraints = [], total_soft_constraints = 0\<rparr>\<rparr>)))"

section \<open>Assignment engine: feasibility checks\<close>

definition checkSurgeonAvailability :: "Solver \<Rightarrow> Patient \<Rightarrow> int \<Rightarrow> fault + bool" where
  "checkSurgeonAvailability s patient day =
     (case find (\<lambda>sg. sur_id sg = surgeon_id patient) (surgeons (problem s)) of
        None \<Rightarrow> Inl (NotFound ''surgeon'')
      | Some sg \<Rightarrow>
          if 0 \<le> day \<and> day < int (length (max_surgery_time sg))
          then Inr (max_surgery_time sg ! nat day \<ge> surgery_duration patient)
          else Inl Undefined)"

text \<open>
  The theater check reads \<^verbatim>\<open>availability_per_day[day]\<close> of one theater after the
  other until one has room; each read of an absent day stores the default 0 for it.
\<close>

definition touch_availability :: "OperatingTheaterState \<Rightarrow> int \<Rightarrow> OperatingTheaterState" where
  "touch_availability t day = t\<lparr>availability_per_day := subscript (availability_per_day t) day 0\<rparr>"

definition avail :: "OperatingTheaterState \<Rightarrow> int \<Rightarrow> int" where
  "avail t day = value_at (availability_per_day t) day 0"

fun checkTheaters :: "OperatingTheaterState list \<Rightarrow> Patient \<Rightarrow> int \<Rightarrow> bool \<times> OperatingTheaterState list" where
  "checkTheaters [] patient day = (False, [])"
| "checkTheaters (t # ts) patient day =
     (if avail t day \<ge> surgery_duration patient
      then (True, touch_availability t day # ts)
      else (case checkTheaters ts patient day of
              (b, ts') \<Rightarrow> (b, touch_availability t day # ts')))"

definition checkOperatingTheaterAvailability :: "Solver \<Rightarrow> Patient \<Rightarrow> int \<Rightarrow> bool \<times> Solver" where
  "checkOperatingTheaterAvailability s patient day =
     (case checkTheaters (theaterStates (solution s)) patient day of
        (b, tss) \<Rightarrow> (b, s\<lparr>solution := (solution s)\<lparr>theaterStates := tss\<rparr>\<rparr>))"

fun room_days_ok :: "RoomState \<Rightarrow> Patient \<Rightarrow> int list \<Rightarrow> bool" where
  "room_days_ok rs patient [] = True"
| "room_days_ok rs patient (day # ds) =
     (case map_of (capacity_per_day rs) day of
        None \<Rightarrow> False
      | Some c \<Rightarrow>
          if c \<le> 0 then False
          else if (case map_of (patients_per_day rs) day of
                     None \<Rightarrow> False
                   | Some ps \<Rightarrow> list_ex (\<lambda>q. pat_gender q \<noteq> pat_gender patient) ps) then False
          else if (case map_of (occupants_per_day rs) day of
                     None \<Rightarrow> False
                   | Some os \<Rightarrow> list_ex (\<lambda>q. occ_gender q \<noteq> pat_gender patient) os) then False
          else room_days_ok rs patient ds)"

definition checkRoomAvailability :: "Solver \<Rightarrow> Patient \<Rightarrow> int \<Rightarrow> string \<Rightarrow> fault + bool" where
  "checkRoomAvailability s patient admission_day' room_id' =
     (case find (\<lambda>rs. room_ident (room_info rs) = room_id') (roomStates (solution s)) of
        None \<Rightarrow> Inl (NotFound ''room'')
      | Some rs \<Rightarrow>
          Inr (room_days_ok rs patient
                 (day_range admission_day'
                    (min (admission_day' + pat_length_of_stay patient) (days (problem s))))))"

text \<open>
  The condition \<^verbatim>\<open>checkSurgeonAvailability && checkOperatingTheaterAvailability && checkRoomAvailability\<close>
  of the repair routines, with its left-to-right short circuit. The decode loops test
  \<^verbatim>\<open>!a || !b || !c\<close>, which evaluates the same calls in the same order and is its negation.
\<close>

definition checkAll :: "Solver \<Rightarrow> Patient \<Rightarrow> int \<Rightarrow> string \<Rightarrow> fault + (bool \<times> Solver)" where
  "checkAll s patient day room_id' =
     ebind (checkSurgeonAvailability s patient day)
       (\<lambda>b1. if \<not> b1 then Inr (False, s)
             else (case checkOperatingTheaterAvailability s patient day of
                     (b2, s') \<Rightarrow>
                       if \<not> b2 then Inr (False, s')
                       else ebind (checkRoomAvailability s' patient day room_id')
                              (\<lambda>b3. Inr (b3, s'))))"

section \<open>Assignment engine: commits\<close>

definition assignSurgeon :: "Solver \<Rightarrow> Patient \<Rightarrow> int \<Rightarrow> fault + Solver" where
  "assignSurgeon s patient day =
     (case find (\<lambda>sg. sur_id sg = surgeon_id patient) (surgeons (problem s)) of
        None \<Rightarrow> Inl (NotFound ''surgeon'')
      | Some sg \<Rightarrow>
          if 0 \<le> day \<and> day < int (length (max_surgery_time sg))
          then Inr (s\<lparr>problem := (problem s)\<lparr>surgeons :=
                       update_first (\<lambda>sg. sur_id sg = surgeon_id patient)
                         (\<lambda>sg. sg\<lparr>max_surgery_time :=
                                  (max_surgery_time sg)[nat day :=
                                     max_surgery_time sg ! nat day - surgery_duration patient]\<rparr>)
                         (surgeons (problem s))\<rparr>\<rparr>)
          else Inl Undefined)"

text \<open>A theater is open on a day when its patient list of that day exists and is not empty.\<close>

definition is_open :: "OperatingTheaterState \<Rightarrow> int \<Rightarrow> bool" where
  "is_open t day = (case map_of (ot_patients_per_day t) day of None \<Rightarrow> False | Some ps \<Rightarrow> ps \<noteq> [])"

text \<open>
  The two selection loops over the candidate theaters (positions in
  \<^verbatim>\<open>solution.theaterStates\<close>): the running best is replaced only by a strictly smaller
  remainder, respectively a strictly larger availability.
\<close>

fun pick_tightest :: "(nat \<Rightarrow> int) \<Rightarrow> nat list \<Rightarrow> nat \<Rightarrow> int \<Rightarrow> nat" where
  "pick_tightest remaining [] bestTheater bestRemaining = bestTheater"
| "pick_tightest remaining (i # is) bestTheater bestRemaining =
     (if remaining i < bestRemaining
      then pick_tightest remaining is i (remaining i)
      else pick_tightest remaining is bestTheater bestRemaining)"

fun pick_largest :: "(nat \<Rightarrow> int) \<Rightarrow> nat list \<Rightarrow> nat \<Rightarrow> int \<Rightarrow> nat" where
  "pick_largest cap [] bestTheater bestCapacity = bestTheater"
| "pick_largest cap (i # is) bestTheater bestCapacity =
     (if cap i > bestCapacity
      then pick_largest cap is i (cap i)
      else pick_largest cap is bestTheater bestCapacity)"

definition book_theater :: "OperatingTheaterState \<Rightarrow> Patient \<Rightarrow> int \<Rightarrow> OperatingTheaterState" where
  "book_theater t patient day =
     t\<lparr>ot_patients_per_day := push_back_at (ot_patients_per_day t) day patient,
       availability_per_day :=
         assign_at (availability_per_day t) day (avail t day - surgery_duration patient)\<rparr>"

definition openTheaters :: "OperatingTheaterState list \<Rightarrow> Patient \<Rightarrow> int \<Rightarrow> nat list" where
  "openTheaters tss patient day =
     filter (\<lambda>i. avail (tss ! i) day \<ge> surgery_duration patient \<and> is_open (tss ! i) day)
       [0..<length tss]"

definition closedTheaters :: "OperatingTheaterState list \<Rightarrow> Patient \<Rightarrow> int \<Rightarrow> nat list" where
  "closedTheaters tss patient day =
     filter (\<lambda>i. avail (tss ! i) day \<ge> surgery_duration patient \<and> \<not> is_open (tss ! i) day)
       [0..<length tss]"

text \<open>The position of the theater that \<^verbatim>\<open>assignOperatingTheater\<close> books, if any.\<close>

definition chooseTheater :: "OperatingTheaterState list \<Rightarrow> Patient \<Rightarrow> int \<Rightarrow> nat option" where
  "chooseTheater tss patient day =
     (let opn = openTheaters tss patient day; cls = closedTheaters tss patient day in
      if opn \<noteq> []
      then Some (pick_tightest (\<lambda>i. avail (tss ! i) day - surgery_duration patient) opn
                   (hd opn) (avail (tss ! hd opn) day - surgery_duration patient))
      else if cls \<noteq> []
      then Some (pick_largest (\<lambda>i. avail (tss ! i) day) cls (hd cls) (avail (tss ! hd cls) day))
      else None)"

definition assignOperatingTheater :: "Solver \<Rightarrow> Patient \<Rightarrow> int \<Rightarrow> fault + (string \<times> Solver)" where
  "assignOperatingTheater s patient day =
     (let tss = map (\<lambda>t. touch_availability t day) (theaterStates (solution s)) in
      case chooseTheater tss patient day of
        None \<Rightarrow> Inl (Exhausted ''theater'')
      | Some k \<Rightarrow>
          Inr (ot_id (theater_info (tss ! k)),
               s\<lparr>solution := (solution s)\<lparr>theaterStates :=
                    tss[k := book_theater (tss ! k) patient day]\<rparr>\<rparr>))"

fun occupy_days :: "RoomState \<Rightarrow> Patient \<Rightarrow> int list \<Rightarrow> fault + RoomState" where
  "occupy_days rs patient [] = Inr rs"
| "occupy_days rs patient (current_day # ds) =
     (case map_of (capacity_per_day rs) current_day of
        None \<Rightarrow> Inl (Exhausted ''room'')
      | Some c \<Rightarrow>
          if c \<le> 0 then Inl (Exhausted ''room'')
          else occupy_days
                 (rs\<lparr>capacity_per_day := assign_at (capacity_per_day rs) current_day (c - 1),
                     patients_per_day := push_back_at (patients_per_day rs) current_day patient\<rparr>)
                 patient ds)"

definition assignRoom :: "Solver \<Rightarrow> Patient \<Rightarrow> int \<Rightarrow> string \<Rightarrow> fault + Solver" where
  "assignRoom s patient day room_id' =
     (case find (\<lambda>rs. room_ident (room_info rs) = room_id') (roomStates (solution s)) of
        None \<Rightarrow> Inl (NotFound ''room'')
      | Some rs \<Rightarrow>
          ebind (occupy_days rs patient
                   (day_range day (min (day + pat_length_of_stay patient) (days (problem s)))))
            (\<lambda>rs'. Inr (s\<lparr>solution := (solution s)\<lparr>roomStates :=
                            update_first (\<lambda>rs. room_ident (room_info rs) = room_id') (\<lambda>_. rs')
                              (roomStates (solution s))\<rparr>\<rparr>)))"

section \<open>Assignment engine: repair\<close>

text \<open>
  The inner loop over \<^verbatim>\<open>problem.rooms\<close> for one candidate day. It returns the flag
  \<^verbatim>\<open>true\<close> as soon as a candidate passes; the encoded entry then holds the candidate.
  A failed candidate is reverted to the saved \<^verbatim>\<open>oldDay\<close> and \<^verbatim>\<open>oldRoom\<close>.
\<close>

fun repair_rooms ::
  "Solver \<Rightarrow> Patient \<Rightarrow> int \<Rightarrow> Room list \<Rightarrow> EncodedPatientSolution
     \<Rightarrow> fault + ((bool \<times> EncodedPatientSolution) \<times> Solver)" where
  "repair_rooms s patient newDay [] enc = Inr ((False, enc), s)"
| "repair_rooms s patient newDay (room # rest) enc =
     (if room_ident room \<in> set (incompatible_room_ids patient)
      then repair_rooms s patient newDay rest enc
      else
        (let oldDay = admission_day enc; oldRoom = room_id enc;
             enc1 = enc\<lparr>admission_day := newDay, room_id := room_ident room\<rparr> in
         ebind (checkAll s patient newDay (room_ident room))
           (\<lambda>(ok, s').
              if ok then Inr ((True, enc1), s')
              else repair_rooms s' patient newDay rest
                     (enc1\<lparr>admission_day := oldDay, room_id := oldRoom\<rparr>))))"

fun repair_days ::
  "Solver \<Rightarrow> Patient \<Rightarrow> int list \<Rightarrow> EncodedPatientSolution
     \<Rightarrow> fault + ((bool \<times> EncodedPatientSolution) \<times> Solver)" where
  "repair_days s patient [] enc = Inr ((False, enc), s)"
| "repair_days s patient (newDay # ds) enc =
     ebind (repair_rooms s patient newDay (rooms (problem s)) enc)
       (\<lambda>((found, enc'), s').
          if found then Inr ((True, enc'), s') else repair_days s' patient ds enc')"

definition repairMandatoryPatient ::
  "Solver \<Rightarrow> Patient \<Rightarrow> EncodedPatientSolution
     \<Rightarrow> fault + ((bool \<times> EncodedPatientSolution) \<times> Solver)" where
  "repairMandatoryPatient s patient enc =
     repair_days s patient
       (day_range (surgery_release_day patient)
          (min (surgery_due_day patient + 1) (days (problem s)))) enc"

text \<open>The \<^verbatim>\<open>while (attempt < MAX_ATTEMPTS)\<close> loop, counting the attempts that are left.\<close>

fun repair_attempts ::
  "nat \<Rightarrow> Solver \<Rightarrow> Patient \<Rightarrow> EncodedPatientSolution
     \<Rightarrow> fault + ((bool \<times> EncodedPatientSolution) \<times> Solver)" where
  "repair_attempts 0 s patient enc = Inr ((False, enc), s)"
| "repair_attempts (Suc n) s patient enc =
     ebind (repair_days s patient
              (day_range (surgery_release_day patient) (days (problem s))) enc)
       (\<lambda>((found, enc'), s').
          if found then Inr ((True, enc'), s') else repair_attempts n s' patient enc')"

definition MAX_ATTEMPTS :: nat where
  "MAX_ATTEMPTS = 5"

definition repairOptionalPatient ::
  "Solver \<Rightarrow> Patient \<Rightarrow> EncodedPatientSolution
     \<Rightarrow> fault + ((bool \<times> EncodedPatientSolution) \<times> Solver)" where
  "repairOptionalPatient s patient enc = repair_attempts MAX_ATTEMPTS s patient enc"

section \<open>Constraint evaluator: hard violations\<close>

text \<open>
  \<^verbatim>\<open>calculateHardConstraintViolations\<close> is one function with eight commented parts
  that add to one counter; each part is a definition here.
\<close>

definition patients_on :: "RoomState \<Rightarrow> int \<Rightarrow> Patient list" where
  "patients_on rs day = (case map_of (patients_per_day rs) day of None \<Rightarrow> [] | Some ps \<Rightarrow> ps)"

definition occupants_on :: "RoomState \<Rightarrow> int \<Rightarrow> Occupant list" where
  "occupants_on rs day = (case map_of (occupants_per_day rs) day of None \<Rightarrow> [] | Some os \<Rightarrow> os)"

text \<open>The \<^verbatim>\<open>std::set<int>\<close> of the days that have an entry in either table of a room.\<close>

definition listed_days :: "RoomState \<Rightarrow> int list" where
  "listed_days rs = remdups (map fst (patients_per_day rs) @ map fst (occupants_per_day rs))"

definition count_where :: "('a \<Rightarrow> bool) \<Rightarrow> 'a list \<Rightarrow> int" where
  "count_where P xs = int (length (filter P xs))"

definition hard_H1 :: "Solver \<Rightarrow> int" where
  "hard_H1 s =
     sum_list (map (\<lambda>rs. count_where
                            (\<lambda>day. length (remdups (map pat_gender (patients_on rs day) @
                                                    map occ_gender (occupants_on rs day))) > 1)
                            (listed_days rs))
                 (roomStates (solution s)))"

definition hard_H2 :: "Solver \<Rightarrow> int" where
  "hard_H2 s =
     count_where
       (\<lambda>pa. pa_admission_day pa \<noteq> None \<and>
             (case find (\<lambda>p. pat_id p = pa_id pa) (patients (originalProblem s)) of
                None \<Rightarrow> False
              | Some patient \<Rightarrow>
                  (case pa_room pa of None \<Rightarrow> False
                   | Some r \<Rightarrow> r \<in> set (incompatible_room_ids patient))))
       (sol_patients (solution s))"

fun surgery_times ::
  "Patient list \<Rightarrow> Surgeon \<Rightarrow> PatientAssignment list \<Rightarrow> int list \<Rightarrow> fault + int list" where
  "surgery_times ps surgeon [] surgeryTime = Inr surgeryTime"
| "surgery_times ps surgeon (pa # pas) surgeryTime =
     (case pa_admission_day pa of
        None \<Rightarrow> surgery_times ps surgeon pas surgeryTime
      | Some d \<Rightarrow>
          (case find (\<lambda>p. pat_id p = pa_id pa) ps of
             None \<Rightarrow> surgery_times ps surgeon pas surgeryTime
           | Some patient \<Rightarrow>
               if surgeon_id patient = sur_id surgeon
               then (if 0 \<le> d \<and> d < int (length surgeryTime)
                     then surgery_times ps surgeon pas
                            (surgeryTime[nat d := surgeryTime ! nat d + surgery_duration patient])
                     else Inl Undefined)
               else surgery_times ps surgeon pas surgeryTime))"

fun overtime_days :: "int list \<Rightarrow> Surgeon \<Rightarrow> int list \<Rightarrow> fault + int" where
  "overtime_days surgeryTime surgeon [] = Inr 0"
| "overtime_days surgeryTime surgeon (day # ds) =
     (if 0 \<le> day \<and> day < int (length (max_surgery_time surgeon))
      then ebind (overtime_days surgeryTime surgeon ds)
             (\<lambda>n. Inr ((if surgeryTime ! nat day > max_surgery_time surgeon ! nat day then 1 else 0) + n))
      else Inl Undefined)"

definition surgeon_overtime :: "Solver \<Rightarrow> Surgeon \<Rightarrow> fault + int" where
  "surgeon_overtime s surgeon =
     (if days (originalProblem s) < 0 then Inl LengthError
      else ebind (surgery_times (patients (originalProblem s)) surgeon (sol_patients (solution s))
                    (replicate (nat (days (originalProblem s))) 0))
             (\<lambda>surgeryTime. overtime_days surgeryTime surgeon (day_range 0 (days (originalProblem s)))))"

fun sum_faulty :: "('a \<Rightarrow> fault + int) \<Rightarrow> 'a list \<Rightarrow> fault + int" where
  "sum_faulty f [] = Inr 0"
| "sum_faulty f (x # xs) = ebind (f x) (\<lambda>n. ebind (sum_faulty f xs) (\<lambda>m. Inr (n + m)))"

definition hard_H3 :: "Solver \<Rightarrow> fault + int" where
  "hard_H3 s = sum_faulty (surgeon_overtime s) (surgeons (originalProblem s))"

definition hard_H4 :: "Solver \<Rightarrow> int" where
  "hard_H4 s =
     sum_list (map (\<lambda>ts. count_where
                            (\<lambda>(day, ps).
                               (case find (\<lambda>t. ot_id t = ot_id (theater_info ts))
                                       (theaters (originalProblem s)) of
                                  None \<Rightarrow> False
                                | Some t \<Rightarrow>
                                    0 \<le> day \<and> day < int (length (availability t)) \<and>
                                    sum_list (map surgery_duration ps) > availability t ! nat day))
                            (ot_patients_per_day ts))
                 (theaterStates (solution s)))"

text \<open>
  H5 dereferences the iterator that \<^verbatim>\<open>std::find_if\<close> returns without comparing it
  with the end of \<^verbatim>\<open>solution.patients\<close>.
\<close>

definition unadmitted_mandatory :: "Solver \<Rightarrow> Patient \<Rightarrow> fault + int" where
  "unadmitted_mandatory s patient =
     (if mandatory patient
      then (case find (\<lambda>pa. pa_id pa = pat_id patient) (sol_patients (solution s)) of
              None \<Rightarrow> Inl Undefined
            | Some pa \<Rightarrow> Inr (if pa_admission_day pa = None then 1 else 0))
      else Inr 0)"

definition hard_H5 :: "Solver \<Rightarrow> fault + int" where
  "hard_H5 s = sum_faulty (unadmitted_mandatory s) (patients (originalProblem s))"

definition hard_H6 :: "Solver \<Rightarrow> int" where
  "hard_H6 s =
     count_where
       (\<lambda>pa. case pa_admission_day pa of
               None \<Rightarrow> False
             | Some d \<Rightarrow>
                 (case find (\<lambda>p. pat_id p = pa_id pa) (patients (originalProblem s)) of
                    None \<Rightarrow> False
                  | Some patient \<Rightarrow>
                      d < surgery_release_day patient \<or>
                      (mandatory patient \<and> d > surgery_due_day patient)))
       (sol_patients (solution s))"

definition hard_H7 :: "Solver \<Rightarrow> int" where
  "hard_H7 s =
     sum_list (map (\<lambda>rs. count_where
                            (\<lambda>(day, ps). int (length ps) + int (length (occupants_on rs day))
                                            > capacity (room_info rs))
                            (patients_per_day rs))
                 (roomStates (solution s)))"

text \<open>H8: the two tests of occupation, and the search through every nurse and shift assignment.\<close>

definition isOccupied :: "RoomState \<Rightarrow> int \<Rightarrow> bool" where
  "isOccupied rs day =
     ((case map_of (patients_per_day rs) day of None \<Rightarrow> False | Some ps \<Rightarrow> ps \<noteq> []) \<or>
      (case map_of (occupants_per_day rs) day of None \<Rightarrow> False | Some os \<Rightarrow> os \<noteq> []))"

fun shift_covers :: "ShiftAssignment list \<Rightarrow> int \<Rightarrow> string \<Rightarrow> string \<Rightarrow> bool" where
  "shift_covers [] day shift rid = False"
| "shift_covers (sa # sas) day shift rid =
     (if sa_day sa = day \<and> sa_shift sa = shift \<and> rid \<in> set (sa_rooms sa) then True
      else shift_covers sas day shift rid)"

fun nurseAssigned :: "NurseAssignment list \<Rightarrow> int \<Rightarrow> string \<Rightarrow> string \<Rightarrow> bool" where
  "nurseAssigned [] day shift rid = False"
| "nurseAssigned (na # nas) day shift rid =
     (if shift_covers (assignments na) day shift rid then True
      else nurseAssigned nas day shift rid)"

fun uncovered_shifts :: "Solver \<Rightarrow> RoomState \<Rightarrow> int \<Rightarrow> string list \<Rightarrow> int" where
  "uncovered_shifts s rs day [] = 0"
| "uncovered_shifts s rs day (shift # shifts) =
     (if \<not> nurseAssigned (sol_nurses (solution s)) day shift (room_ident (room_info rs)) then 1 else 0)
       + uncovered_shifts s rs day shifts"

fun uncovered_days :: "Solver \<Rightarrow> RoomState \<Rightarrow> int list \<Rightarrow> int" where
  "uncovered_days s rs [] = 0"
| "uncovered_days s rs (day # ds) =
     (if isOccupied rs day then uncovered_shifts s rs day (shift_types (originalProblem s)) else 0)
       + uncovered_days s rs ds"

fun uncovered_rooms :: "Solver \<Rightarrow> RoomState list \<Rightarrow> int" where
  "uncovered_rooms s [] = 0"
| "uncovered_rooms s (rs # rss) =
     uncovered_days s rs (day_range 0 (days (originalProblem s))) + uncovered_rooms s rss"

definition hard_H8 :: "Solver \<Rightarrow> int" where
  "hard_H8 s = uncovered_rooms s (roomStates (solution s))"

definition calculateHardConstraintViolations :: "Solver \<Rightarrow> fault + int" where
  "calculateHardConstraintViolations s =
     ebind (hard_H3 s) (\<lambda>h3. ebind (hard_H5 s) (\<lambda>h5.
       Inr (hard_H1 s + hard_H2 s + h3 + hard_H4 s + h5 + hard_H6 s + hard_H7 s + hard_H8 s)))"

section \<open>Constraint evaluator: soft penalties\<close>

text \<open>\<^verbatim>\<open>std::distance(v.begin(), std::find(v.begin(), v.end(), x))\<close>: the size of \<open>v\<close> when \<open>x\<close> is absent.\<close>

fun index_of :: "'a list \<Rightarrow> 'a \<Rightarrow> nat" where
  "index_of [] x = 0"
| "index_of (y # ys) x = (if y = x then 0 else Suc (index_of ys x))"

definition ageIndices :: "Solver \<Rightarrow> RoomState \<Rightarrow> int \<Rightarrow> int list" where
  "ageIndices s rs day =
     remdups (map (\<lambda>g. int (index_of (age_groups (problem s)) g))
                (filter (\<lambda>g. g \<in> set (age_groups (problem s)))
                   (map pat_age_group (patients_on rs day) @ map occ_age_group (occupants_on rs day))))"

definition calculateAgeGroupPenalty :: "Solver \<Rightarrow> int" where
  "calculateAgeGroupPenalty s =
     sum_list (map (\<lambda>rs. sum_list (map (\<lambda>day.
                      (let ages = ageIndices s rs day in
                       if length ages > 1
                       then room_mixed_age (weights (problem s)) *
                              (fold max ages (hd ages) - fold min ages (hd ages))
                       else 0))
                    (listed_days rs)))
                 (roomStates (solution s)))"

text \<open>
  S2 resolves identifiers through \<^verbatim>\<open>std::unordered_map\<close> indexes filled in list order,
  so of several entries with one identifier the last one is found. The comparison of
  the \<^verbatim>\<open>int\<close> index with the unsigned size of the skill vector is false for a negative index.
\<close>

definition find_last :: "('a \<Rightarrow> bool) \<Rightarrow> 'a list \<Rightarrow> 'a option" where
  "find_last P xs = find P (rev xs)"

definition skill_gap :: "Solver \<Rightarrow> int list \<Rightarrow> int \<Rightarrow> Nurse \<Rightarrow> int" where
  "skill_gap s required skillIndex nurse =
     (if 0 \<le> skillIndex \<and> skillIndex < int (length required) \<and>
         required ! nat skillIndex > skill_level nurse
      then (required ! nat skillIndex - skill_level nurse) * room_nurse_skill (weights (problem s))
      else 0)"

definition patient_skill :: "Solver \<Rightarrow> Nurse \<Rightarrow> ShiftAssignment \<Rightarrow> Patient \<Rightarrow> fault + int" where
  "patient_skill s nurse sa patient =
     (case find_last (\<lambda>pa. pa_id pa = pat_id patient) (sol_patients (solution s)) of
        None \<Rightarrow> Inl (NotFound ''patient'')
      | Some pa \<Rightarrow>
          (case pa_admission_day pa of
             None \<Rightarrow> Inl (Unassigned (pa_id pa))
           | Some ad \<Rightarrow>
               Inr (skill_gap s (pat_skill_level_required patient)
                      (skill_index (sa_day sa - ad) (length (shift_types (problem s)))
                         (index_of (shift_types (problem s)) (sa_shift sa)))
                      nurse)))"

definition occupant_skill :: "Solver \<Rightarrow> Nurse \<Rightarrow> ShiftAssignment \<Rightarrow> Occupant \<Rightarrow> int" where
  "occupant_skill s nurse sa occupant =
     skill_gap s (occ_skill_level_required occupant)
       (skill_index (sa_day sa) (length (shift_types (problem s)))
          (index_of (shift_types (problem s)) (sa_shift sa)))
       nurse"

definition room_skill :: "Solver \<Rightarrow> Nurse \<Rightarrow> ShiftAssignment \<Rightarrow> string \<Rightarrow> fault + int" where
  "room_skill s nurse sa roomId =
     (case find_last (\<lambda>rs. room_ident (room_info rs) = roomId) (roomStates (solution s)) of
        None \<Rightarrow> Inl (NotFound ''room'')
      | Some rs \<Rightarrow>
          ebind (sum_faulty (patient_skill s nurse sa) (patients_on rs (sa_day sa)))
            (\<lambda>n. Inr (n + sum_list (map (occupant_skill s nurse sa) (occupants_on rs (sa_day sa))))))"

definition nurse_skill :: "Solver \<Rightarrow> NurseAssignment \<Rightarrow> fault + int" where
  "nurse_skill s na =
     (case find_last (\<lambda>n. nurse_id n = na_id na) (nurses (problem s)) of
        None \<Rightarrow> Inl (NotFound ''nurse'')
      | Some nurse \<Rightarrow>
          sum_faulty (\<lambda>sa. sum_faulty (room_skill s nurse sa) (sa_rooms sa)) (assignments na))"

definition calculateMinimumSkillPenalty :: "Solver \<Rightarrow> fault + int" where
  "calculateMinimumSkillPenalty s = sum_faulty (nurse_skill s) (sol_nurses (solution s))"

text \<open>
  S3. The room of the patient or occupant is looked up inside the loops over the days of
  the stay and the shift types, so an unknown room is a fault only when both are non-empty.
\<close>

definition covering_nurses :: "Solver \<Rightarrow> string \<Rightarrow> int \<Rightarrow> string \<Rightarrow> string list" where
  "covering_nurses s rid day shift =
     map na_id (filter (\<lambda>na. list_ex (\<lambda>a. sa_day a = day \<and> sa_shift a = shift \<and> rid \<in> set (sa_rooms a))
                                (assignments na))
                  (sol_nurses (solution s)))"

definition uniqueNurses :: "Solver \<Rightarrow> (RoomState \<Rightarrow> bool) \<Rightarrow> int list \<Rightarrow> fault + int" where
  "uniqueNurses s is_room stay =
     (if stay = [] \<or> shift_types (problem s) = [] then Inr 0
      else (case find is_room (roomStates (solution s)) of
              None \<Rightarrow> Inl (NotFound ''room'')
            | Some rs \<Rightarrow>
                Inr (int (length (remdups (concat (map (\<lambda>(day, shift).
                            covering_nurses s (room_ident (room_info rs)) day shift)
                          (List.product stay (shift_types (problem s))))))))))"

text \<open>
  The body of each of the two loops: the penalty so far goes in, the penalty after the
  iteration comes out. The number of unique nurses is a \<^verbatim>\<open>size()\<close>, so the update of
  the penalty is unsigned.
\<close>

definition occupant_continuity :: "Solver \<Rightarrow> Occupant \<Rightarrow> int \<Rightarrow> fault + int" where
  "occupant_continuity s occupantAssignment penalty =
     (case find (\<lambda>occ. occ_id occ = occ_id occupantAssignment) (occupants (problem s)) of
        None \<Rightarrow> Inl (NotFound ''occupant'')
      | Some occupant \<Rightarrow>
          ebind (uniqueNurses s (\<lambda>rs. room_ident (room_info rs) = occ_room_id occupantAssignment)
                   (day_range 0 (min (occ_length_of_stay occupant) (days (problem s)))))
            (\<lambda>n. Inr (add_sized penalty n (continuity_of_care (weights (problem s))))))"

definition patient_continuity :: "Solver \<Rightarrow> PatientAssignment \<Rightarrow> int \<Rightarrow> fault + int" where
  "patient_continuity s pa penalty =
     (case pa_admission_day pa of
        None \<Rightarrow> Inr penalty
      | Some ad \<Rightarrow>
          (case find (\<lambda>p. pat_id p = pa_id pa) (patients (problem s)) of
             None \<Rightarrow> Inl (NotFound ''patient'')
           | Some patient \<Rightarrow>
               ebind (uniqueNurses s (\<lambda>rs. Some (room_ident (room_info rs)) = pa_room pa)
                        (day_range ad (min (ad + pat_length_of_stay patient) (days (problem s)))))
                 (\<lambda>n. Inr (add_sized penalty n (continuity_of_care (weights (problem s)))))))"

fun accumulate :: "('a \<Rightarrow> int \<Rightarrow> fault + int) \<Rightarrow> 'a list \<Rightarrow> int \<Rightarrow> fault + int" where
  "accumulate f [] penalty = Inr penalty"
| "accumulate f (x # xs) penalty = ebind (f x penalty) (accumulate f xs)"

definition calculateContinuityOfCarePenalty :: "Solver \<Rightarrow> fault + int" where
  "calculateContinuityOfCarePenalty s =
     ebind (accumulate (occupant_continuity s) (occupants (problem s)) 0)
       (accumulate (patient_continuity s) (sol_patients (solution s)))"

text \<open>S4. The workload of a patient is read after a range check, that of an occupant without one.\<close>

definition patient_workload :: "Solver \<Rightarrow> int \<Rightarrow> nat \<Rightarrow> Patient \<Rightarrow> fault + int" where
  "patient_workload s day shiftIndex patient =
     (case find (\<lambda>pa. pa_id pa = pat_id patient) (sol_patients (solution s)) of
        None \<Rightarrow> Inl (NotFound ''patient'')
      | Some pa \<Rightarrow>
          (case pa_admission_day pa of
             None \<Rightarrow> Inl (Unassigned (pa_id pa))
           | Some ad \<Rightarrow>
               (let index = (day - ad) * 3 + int shiftIndex in
                if index < 0 \<or> index \<ge> int (length (pat_workload_produced patient))
                then Inl OutOfRange
                else Inr (pat_workload_produced patient ! nat index))))"

definition occupant_workload :: "int \<Rightarrow> nat \<Rightarrow> Occupant \<Rightarrow> fault + int" where
  "occupant_workload day shiftIndex occupant =
     (let index = day * 3 + int shiftIndex in
      if 0 \<le> index \<and> index < int (length (occ_workload_produced occupant))
      then Inr (occ_workload_produced occupant ! nat index)
      else Inl Undefined)"

definition room_workload :: "Solver \<Rightarrow> int \<Rightarrow> nat \<Rightarrow> string \<Rightarrow> fault + int" where
  "room_workload s day shiftIndex roomId =
     (case find (\<lambda>rs. room_ident (room_info rs) = roomId) (roomStates (solution s)) of
        None \<Rightarrow> Inl (NotFound ''room'')
      | Some rs \<Rightarrow>
          ebind (sum_faulty (patient_workload s day shiftIndex) (patients_on rs day))
            (\<lambda>a. ebind (sum_faulty (occupant_workload day shiftIndex) (occupants_on rs day))
               (\<lambda>b. Inr (a + b))))"

definition shift_workload :: "Solver \<Rightarrow> Nurse \<Rightarrow> ShiftAssignment \<Rightarrow> fault + int" where
  "shift_workload s nurse sa =
     (case find (\<lambda>ws. ws_day ws = sa_day sa \<and> ws_shift ws = sa_shift sa) (working_shifts nurse) of
        None \<Rightarrow> Inl (NotFound ''shift'')
      | Some workingShift \<Rightarrow>
          ebind (sum_faulty (room_workload s (sa_day sa)
                               (index_of (shift_types (problem s)) (sa_shift sa)))
                   (sa_rooms sa))
            (\<lambda>totalWorkload.
               Inr (if totalWorkload = 0 then 0
                    else if totalWorkload > max_load workingShift
                    then (totalWorkload - max_load workingShift) *
                           nurse_eccessive_workload (weights (problem s))
                    else 0)))"

definition nurse_workload :: "Solver \<Rightarrow> NurseAssignment \<Rightarrow> fault + int" where
  "nurse_workload s na =
     (case find (\<lambda>n. nurse_id n = na_id na) (nurses (problem s)) of
        None \<Rightarrow> Inl (NotFound ''nurse'')
      | Some nurse \<Rightarrow> sum_faulty (shift_workload s nurse) (assignments na))"

definition calculateMaximumWorkloadPenalty :: "Solver \<Rightarrow> fault + int" where
  "calculateMaximumWorkloadPenalty s = sum_faulty (nurse_workload s) (sol_nurses (solution s))"

definition calculateOpenOperatingTheatersPenalty :: "Solver \<Rightarrow> int" where
  "calculateOpenOperatingTheatersPenalty s =
     sum_list (map (\<lambda>day. count_where (\<lambda>ts. is_open ts day) (theaterStates (solution s)))
                 (day_range 0 (days (problem s))))
       * open_operating_theater (weights (problem s))"

text \<open>
  S6: the map from each surgeon to the set of theaters used on one day. The number of
  theaters of a surgeon is a \<^verbatim>\<open>size()\<close>, so the update of the penalty is unsigned. The
  code visits the surgeons of a day in the order of their identifiers, the model in the
  order of their first patient.
\<close>

definition surgeonToTheaters :: "Solver \<Rightarrow> int \<Rightarrow> (string \<times> string) list" where
  "surgeonToTheaters s day =
     concat (map (\<lambda>ts. map (\<lambda>p. (surgeon_id p, ot_id (theater_info ts)))
                          (case map_of (ot_patients_per_day ts) day of None \<Rightarrow> [] | Some ps \<Rightarrow> ps))
               (theaterStates (solution s)))"

definition calculateSurgeonTransferPenalty :: "Solver \<Rightarrow> int" where
  "calculateSurgeonTransferPenalty s =
     foldl (\<lambda>penalty day.
        (let pairs = surgeonToTheaters s day in
         foldl (\<lambda>penalty surgeonId.
            (let n = int (length (remdups (map snd (filter (\<lambda>pr. fst pr = surgeonId) pairs)))) in
             if n > 1 then add_sized penalty (n - 1) (surgeon_transfer (weights (problem s)))
             else penalty))
           penalty (remdups (map fst pairs))))
       0 (day_range 0 (days (problem s)))"

definition admission_delay :: "Solver \<Rightarrow> PatientAssignment \<Rightarrow> fault + int" where
  "admission_delay s pa =
     (case pa_admission_day pa of
        None \<Rightarrow> Inr 0
      | Some ad \<Rightarrow>
          (case find (\<lambda>p. pat_id p = pa_id pa) (patients (problem s)) of
             None \<Rightarrow> Inl (NotFound ''patient'')
           | Some patient \<Rightarrow>
               Inr (if ad > surgery_release_day patient then ad - surgery_release_day patient else 0)))"

definition calculateAdmissionDelayPenalty :: "Solver \<Rightarrow> fault + int" where
  "calculateAdmissionDelayPenalty s =
     ebind (sum_faulty (admission_delay s) (sol_patients (solution s)))
       (\<lambda>penalty. Inr (penalty * patient_delay (weights (problem s))))"

definition unscheduled_optional_patient :: "Solver \<Rightarrow> Patient \<Rightarrow> fault + int" where
  "unscheduled_optional_patient s patient =
     (if \<not> mandatory patient
      then (case find (\<lambda>pa. pa_id pa = pat_id patient) (sol_patients (solution s)) of
              None \<Rightarrow> Inl (NotFound ''optional patient'')
            | Some pa \<Rightarrow> Inr (if pa_admission_day pa = None then 1 else 0))
      else Inr 0)"

definition calculateUnscheduledOptionalPatientsPenalty :: "Solver \<Rightarrow> fault + int" where
  "calculateUnscheduledOptionalPatientsPenalty s =
     ebind (sum_faulty (unscheduled_optional_patient s) (patients (problem s)))
       (\<lambda>penalty. Inr (penalty * unscheduled_optional (weights (problem s))))"

definition calculateSoftConstraints :: "Solver \<Rightarrow> fault + (int \<times> Solver)" where
  "calculateSoftConstraints s =
     ebind (calculateMinimumSkillPenalty s) (\<lambda>s2.
     ebind (calculateContinuityOfCarePenalty s) (\<lambda>s3.
     ebind (calculateMaximumWorkloadPenalty s) (\<lambda>s4.
     ebind (calculateAdmissionDelayPenalty s) (\<lambda>s7.
     ebind (calculateUnscheduledOptionalPatientsPenalty s) (\<lambda>s8.
       (let cs = [calculateAgeGroupPenalty s, s2, s3, s4,
                  calculateOpenOperatingTheatersPenalty s,
                  calculateSurgeonTransferPenalty s, s7, s8] in
        Inr (sum_list cs,
             s\<lparr>solution := (solution s)\<lparr>soft_constraints := cs,
                                         total_soft_constraints := sum_list cs\<rparr>\<rparr>)))))))"

section \<open>Decoding an encoded solution\<close>

type_synonym repair =
  "Solver \<Rightarrow> Patient \<Rightarrow> EncodedPatientSolution \<Rightarrow> fault + ((bool \<times> EncodedPatientSolution) \<times> Solver)"

text \<open>The first loop of \<^verbatim>\<open>solve\<close> copies every encoded entry into one of two local vectors.\<close>

fun splitEncoded ::
  "Patient list \<Rightarrow> EncodedPatientSolution list
     \<Rightarrow> fault + (EncodedPatientSolution list \<times> EncodedPatientSolution list)" where
  "splitEncoded ps [] = Inr ([], [])"
| "splitEncoded ps (enc # encs) =
     (case find (\<lambda>p. pat_id p = patient_id enc) ps of
        None \<Rightarrow> Inl (NotFound ''patient'')
      | Some patient \<Rightarrow>
          ebind (splitEncoded ps encs)
            (\<lambda>(mandatoryEnc, optionalEnc).
               if mandatory patient then Inr (enc # mandatoryEnc, optionalEnc)
               else Inr (mandatoryEnc, enc # optionalEnc)))"

text \<open>The three commits and the record of the placement, common to both processing loops.\<close>

definition commitPlacement :: "Solver \<Rightarrow> Patient \<Rightarrow> int \<Rightarrow> string \<Rightarrow> fault + Solver" where
  "commitPlacement s patient admissionDay room_id' =
     ebind (assignSurgeon s patient admissionDay) (\<lambda>s1.
     ebind (assignOperatingTheater s1 patient admissionDay) (\<lambda>(theater_id, s2).
     ebind (assignRoom s2 patient admissionDay room_id') (\<lambda>s3.
       Inr (s3\<lparr>solution := (solution s3)\<lparr>sol_patients := sol_patients (solution s3) @
              [\<lparr>pa_id = pat_id patient, pa_admission_day = Some admissionDay,
                pa_room = Some room_id', pa_operating_theater = Some theater_id\<rparr>]\<rparr>\<rparr>))))"

text \<open>
  The body of the loops over \<^verbatim>\<open>mandatoryEnc\<close> and \<^verbatim>\<open>optionalEnc\<close>, which differ in
  the repair routine only. The entry \<open>enc\<close> is an element of the local vector; the
  result holds that element after the iteration.
\<close>

definition placePatient ::
  "repair \<Rightarrow> Solver \<Rightarrow> EncodedPatientSolution \<Rightarrow> fault + (EncodedPatientSolution \<times> Solver)" where
  "placePatient repairPatient s enc =
     (case find (\<lambda>p. pat_id p = patient_id enc) (patients (problem s)) of
        None \<Rightarrow> Inl (NotFound ''patient'')
      | Some patient \<Rightarrow>
          ebind (checkAll s patient (admission_day enc) (room_id enc))
            (\<lambda>(ok, s1).
               if ok
               then ebind (commitPlacement s1 patient (admission_day enc) (room_id enc))
                      (\<lambda>s2. Inr (enc, s2))
               else ebind (repairPatient s1 patient enc)
                      (\<lambda>((repaired, enc'), s2).
                         if \<not> repaired
                         then Inr (enc', s2\<lparr>solution := (solution s2)\<lparr>sol_patients :=
                                     sol_patients (solution s2) @
                                       [\<lparr>pa_id = pat_id patient, pa_admission_day = None,
                                         pa_room = None, pa_operating_theater = None\<rparr>]\<rparr>\<rparr>)
                         else ebind (commitPlacement s2 patient (admission_day enc') (room_id enc'))
                                (\<lambda>s3. Inr (enc', s3)))))"

fun processPatients ::
  "repair \<Rightarrow> Solver \<Rightarrow> EncodedPatientSolution list
     \<Rightarrow> fault + (EncodedPatientSolution list \<times> Solver)" where
  "processPatients repairPatient s [] = Inr ([], s)"
| "processPatients repairPatient s (enc # encs) =
     ebind (placePatient repairPatient s enc)
       (\<lambda>(enc', s').
          ebind (processPatients repairPatient s' encs)
            (\<lambda>(encs', s''). Inr (enc' # encs', s'')))"

section \<open>Nurse applier\<close>

fun shift_assignments ::
  "WorkingShift list \<Rightarrow> string list list \<Rightarrow> nat \<Rightarrow> fault + (ShiftAssignment list \<times> nat)" where
  "shift_assignments [] blocks idx = Inr ([], idx)"
| "shift_assignments (ws # wss) blocks idx =
     (if idx < length blocks
      then ebind (shift_assignments wss blocks (Suc idx))
             (\<lambda>(sas, idx').
                Inr (\<lparr>sa_day = ws_day ws, sa_shift = ws_shift ws, sa_rooms = blocks ! idx\<rparr> # sas, idx'))
      else Inl Undefined)"

fun nurse_assignments ::
  "Nurse list \<Rightarrow> string list list \<Rightarrow> nat \<Rightarrow> fault + NurseAssignment list" where
  "nurse_assignments [] blocks idx = Inr []"
| "nurse_assignments (nurse # ns) blocks idx =
     ebind (shift_assignments (working_shifts nurse) blocks idx)
       (\<lambda>(sas, idx').
          ebind (nurse_assignments ns blocks idx')
            (\<lambda>nas. Inr (\<lparr>na_id = nurse_id nurse, assignments = sas\<rparr> # nas)))"

definition applyNurses :: "Solver \<Rightarrow> EncodedSolution \<Rightarrow> fault + Solver" where
  "applyNurses s enc =
     ebind (nurse_assignments (nurses (problem s)) (encoded_nurses enc) 0)
       (\<lambda>nas. Inr (s\<lparr>solution := (solution s)\<lparr>sol_nurses := nas\<rparr>\<rparr>))"

section \<open>The entry point\<close>

text \<open>
  \<^verbatim>\<open>solve\<close> up to and including the nurse loop. The result holds the local vectors
  \<^verbatim>\<open>mandatoryEnc\<close> and \<^verbatim>\<open>optionalEnc\<close> as the loops leave them.
\<close>

definition solve_decode ::
  "Solver \<Rightarrow> EncodedSolution
     \<Rightarrow> fault + ((EncodedPatientSolution list \<times> EncodedPatientSolution list) \<times> Solver)" where
  "solve_decode s encodedSolution =
     ebind (initializeDynamicStates s) (\<lambda>s0.
     ebind (splitEncoded (patients (problem s0)) (encoded_patients encodedSolution))
       (\<lambda>(mandatoryEnc, optionalEnc).
     ebind (processPatients repairMandatoryPatient s0 mandatoryEnc) (\<lambda>(mandatoryEnc', s1).
     ebind (processPatients repairOptionalPatient s1 optionalEnc) (\<lambda>(optionalEnc', s2).
     ebind (nurse_assignments (nurses (problem s2)) (encoded_nurses encodedSolution) 0) (\<lambda>nas.
       Inr ((mandatoryEnc', optionalEnc'),
            s2\<lparr>solution := (solution s2)\<lparr>sol_nurses := sol_nurses (solution s2) @ nas\<rparr>\<rparr>))))))"

text \<open>
  \<^verbatim>\<open>solve\<close> takes the encoded solution by reference. The result holds the scores, the
  solver after the call and the caller's encoded solution after the call.
\<close>

definition solve ::
  "Solver \<Rightarrow> EncodedSolution \<Rightarrow> fault + ((int \<times> int) \<times> Solver \<times> EncodedSolution)" where
  "solve s encodedSolution =
     ebind (solve_decode s encodedSolution) (\<lambda>(locals, s3).
     ebind (calculateHardConstraintViolations s3) (\<lambda>hardViolations.
     ebind (calculateSoftConstraints s3) (\<lambda>(softPenalty, s4).
       Inr ((hardViolations, softPenalty), s4, encodedSolution))))"

section \<open>Nurse-only re-optimizer\<close>

definition isBetterFitness :: "int \<times> int \<Rightarrow> int \<times> int \<Rightarrow> bool" where
  "isBetterFitness candidate best =
     (if fst candidate < fst best then True
      else if fst candidate = fst best \<and> snd candidate < snd best then True
      else False)"

definition computeNurseOnlyCosts :: "Solver \<Rightarrow> fault + ((int \<times> int) \<times> Solver)" where
  "computeNurseOnlyCosts s =
     ebind (calculateMinimumSkillPenalty s) (\<lambda>s2.
     ebind (calculateContinuityOfCarePenalty s) (\<lambda>s3.
     ebind (calculateMaximumWorkloadPenalty s) (\<lambda>s4.
       if length (soft_constraints (solution s)) < 4 then Inl Undefined
       else
         (let cs = (soft_constraints (solution s))[1 := s2, 2 := s3, 3 := s4];
              s' = s\<lparr>solution := (solution s)\<lparr>soft_constraints := cs,
                                               total_soft_constraints := sum_list cs\<rparr>\<rparr> in
          ebind (calculateHardConstraintViolations s') (\<lambda>hard. Inr ((hard, sum_list cs), s'))))))"

definition swap_blocks :: "EncodedSolution \<Rightarrow> nat \<Rightarrow> nat \<Rightarrow> EncodedSolution" where
  "swap_blocks enc i j =
     enc\<lparr>encoded_nurses := (encoded_nurses enc)[i := encoded_nurses enc ! j, j := encoded_nurses enc ! i]\<rparr>"

text \<open>
  \<^verbatim>\<open>blockMeta\<close>: one default pair per encoded block, overwritten in the canonical order by
  the (day, shift) of every working shift.
\<close>

definition blockMeta :: "Solver \<Rightarrow> nat \<Rightarrow> fault + (int \<times> string) list" where
  "blockMeta s totalBlocks =
     (let metas = map (\<lambda>ws. (ws_day ws, ws_shift ws)) (concat (map working_shifts (nurses (problem s)))) in
      if length metas \<le> totalBlocks
      then Inr (metas @ replicate (totalBlocks - length metas) (0, []))
      else Inl Undefined)"

text \<open>The pairs \<open>(i, j)\<close> in the order of the two nested loops.\<close>

definition block_pairs :: "nat \<Rightarrow> (nat \<times> nat) list" where
  "block_pairs totalBlocks = concat (map (\<lambda>i. map (\<lambda>j. (i, j)) [Suc i..<totalBlocks]) [0..<totalBlocks])"

fun search_swaps ::
  "Solver \<Rightarrow> EncodedSolution \<Rightarrow> (int \<times> string) list \<Rightarrow> int \<Rightarrow> int \<Rightarrow> (nat \<times> nat) list
     \<Rightarrow> fault + ((int \<times> int) \<times> Solver \<times> EncodedSolution)" where
  "search_swaps s enc meta hard0 soft0 [] = Inr ((hard0, soft0), s, enc)"
| "search_swaps s enc meta hard0 soft0 ((i, j) # rest) =
     (if meta ! i \<noteq> meta ! j then search_swaps s enc meta hard0 soft0 rest
      else
        (let enc1 = swap_blocks enc i j in
         ebind (applyNurses s enc1) (\<lambda>s1.
         ebind (computeNurseOnlyCosts s1) (\<lambda>((hardNew, softNew), s2).
           if hardNew < hard0 \<or> (hardNew = hard0 \<and> softNew < soft0)
           then Inr ((hardNew, softNew), s2, enc1)
           else search_swaps s2 (swap_blocks enc1 i j) meta hard0 soft0 rest))))"

definition localSearchNurses ::
  "Solver \<Rightarrow> EncodedSolution \<Rightarrow> fault + ((int \<times> int) \<times> Solver \<times> EncodedSolution)" where
  "localSearchNurses s enc =
     ebind (solve s enc) (\<lambda>((hard0, soft0), s', enc').
     ebind (blockMeta s' (length (encoded_nurses enc'))) (\<lambda>meta.
       search_swaps s' enc' meta hard0 soft0 (block_pairs (length (encoded_nurses enc')))))"

section \<open>Vocabulary of the properties\<close>

text \<open>Theater \<open>i\<close> of the list has enough availability left on the day for the surgery.\<close>

definition fits :: "OperatingTheaterState list \<Rightarrow> Patient \<Rightarrow> int \<Rightarrow> nat \<Rightarrow> bool" where
  "fits tss patient day i \<longleftrightarrow> i < length tss \<and> surgery_duration patient \<le> avail (tss ! i) day"

text \<open>
  Every theater has an entry for every day of the horizon in its availability table.
  Then the theater check, which reads the table with \<^verbatim>\<open>operator[]\<close>, stores nothing.
\<close>

definition availability_listed :: "Solver \<Rightarrow> bool" where
  "availability_listed s \<longleftrightarrow>
     list_all (\<lambda>t. list_all (\<lambda>d. map_of (availability_per_day t) d \<noteq> None)
                      (day_range 0 (days (problem s))))
       (theaterStates (solution s))"

text \<open>
  The single exhaustive pass of the specification: the days from the release day to the
  end of the horizon crossed with the rooms that are not declared incompatible, searched
  in this order for the first candidate that passes the three checks; the encoded entry
  takes the candidate that is found and is left alone when none is.
\<close>

definition compatible_rooms :: "Solver \<Rightarrow> Patient \<Rightarrow> string list" where
  "compatible_rooms s patient =
     map room_ident (filter (\<lambda>room. room_ident room \<notin> set (incompatible_room_ids patient))
                       (rooms (problem s)))"

definition candidates :: "Solver \<Rightarrow> Patient \<Rightarrow> (int \<times> string) list" where
  "candidates s patient =
     List.product (day_range (surgery_release_day patient) (days (problem s)))
       (compatible_rooms s patient)"

fun first_feasible ::
  "Solver \<Rightarrow> Patient \<Rightarrow> EncodedPatientSolution \<Rightarrow> (int \<times> string) list
     \<Rightarrow> fault + ((bool \<times> EncodedPatientSolution) \<times> Solver)" where
  "first_feasible s patient enc [] = Inr ((False, enc), s)"
| "first_feasible s patient enc ((day, rid) # cs) =
     ebind (checkAll s patient day rid)
       (\<lambda>(ok, s'). if ok then Inr ((True, enc\<lparr>admission_day := day, room_id := rid\<rparr>), s')
                    else first_feasible s' patient enc cs)"

definition singleExhaustivePass ::
  "Solver \<Rightarrow> Patient \<Rightarrow> EncodedPatientSolution
     \<Rightarrow> fault + ((bool \<times> EncodedPatientSolution) \<times> Solver)" where
  "singleExhaustivePass s patient enc = first_feasible s patient enc (candidates s patient)"

text \<open>
  A solver that differs from another one only by entries that reads with
  \<^verbatim>\<open>operator[]\<close> stored in availability tables: the values read are the same and no
  entry is lost.
\<close>

definition table_extends :: "int day_table \<Rightarrow> int day_table \<Rightarrow> bool" where
  "table_extends m m' \<longleftrightarrow>
     (\<forall>d. value_at m' d 0 = value_at m d 0) \<and> (\<forall>d. map_of m d \<noteq> None \<longrightarrow> map_of m' d \<noteq> None)"

definition theater_extends :: "OperatingTheaterState \<Rightarrow> OperatingTheaterState \<Rightarrow> bool" where
  "theater_extends t t' \<longleftrightarrow>
     theater_info t' = theater_info t \<and> ot_patients_per_day t' = ot_patients_per_day t \<and>
     table_extends (availability_per_day t) (availability_per_day t')"

definition touched_from :: "Solver \<Rightarrow> Solver \<Rightarrow> bool" where
  "touched_from s s' \<longleftrightarrow>
     problem s' = problem s \<and> originalProblem s' = originalProblem s \<and>
     (\<exists>ts. solution s' = (solution s)\<lparr>theaterStates := ts\<rparr> \<and>
           list_all2 theater_extends (theaterStates (solution s)) ts)"

text \<open>Two solvers hold the same instance up to the surgeons' remaining budgets.\<close>

definition same_instance :: "Solver \<Rightarrow> Solver \<Rightarrow> bool" where
  "same_instance s s' \<longleftrightarrow>
     originalProblem s' = originalProblem s \<and> (\<exists>sg. problem s' = (problem s)\<lparr>surgeons := sg\<rparr>)"

text \<open>A decoded entry agrees with an encoded entry: same patient, and if placed, same day and room.\<close>

definition placed_as :: "PatientAssignment \<Rightarrow> EncodedPatientSolution \<Rightarrow> bool" where
  "placed_as pa e \<longleftrightarrow>
     pa_id pa = patient_id e \<and>
     (pa_admission_day pa \<noteq> None \<longrightarrow>
        pa_admission_day pa = Some (admission_day e) \<and> pa_room pa = Some (room_id e))"

text \<open>What the decoding loops need of a repair routine.\<close>

definition repair_contract :: "repair \<Rightarrow> bool" where
  "repair_contract r \<longleftrightarrow>
     (\<forall>s p e found e' s'. r s p e = Inr ((found, e'), s') \<longrightarrow>
        touched_from s s' \<and> patient_id e' = patient_id e)"

text \<open>What every step of the decoding keeps.\<close>

definition decode_step :: "Solver \<Rightarrow> Solver \<Rightarrow> bool" where
  "decode_step s s' \<longleftrightarrow>
     same_instance s s' \<and> (availability_listed s \<longrightarrow> availability_listed s') \<and>
     sol_nurses (solution s') = sol_nurses (solution s)"

text \<open>A repair routine that faults when it is called outside the listed states.\<close>

definition in_listed_state :: "repair \<Rightarrow> repair" where
  "in_listed_state r s patient enc =
     (if availability_listed s then r s patient enc else Inl Undefined)"

text \<open>
  What the caller can see after \<^verbatim>\<open>solve\<close>: the decoded patient list and the patient
  entries of the encoded solution it passed by reference.
\<close>

definition solve_observed ::
  "Solver \<Rightarrow> EncodedSolution \<Rightarrow> (PatientAssignment list \<times> EncodedPatientSolution list) option" where
  "solve_observed s encodedSolution =
     (case solve s encodedSolution of
        Inl e \<Rightarrow> None
      | Inr (scores, s', encodedSolution') \<Rightarrow>
          Some (sol_patients (solution s'), encoded_patients encodedSolution'))"

text \<open>The patient has an entry with an admission day in the decoded patient list.\<close>

definition admitted :: "Solver \<Rightarrow> Patient \<Rightarrow> bool" where
  "admitted s patient \<longleftrightarrow>
     (\<exists>pa\<in>set (sol_patients (solution s)). pa_id pa = pat_id patient \<and> pa_admission_day pa \<noteq> None)"

text \<open>The vocabulary of H8: a room is occupied on a day; a room is covered on a day and shift.\<close>

definition occupied :: "RoomState \<Rightarrow> int \<Rightarrow> bool" where
  "occupied rs day \<longleftrightarrow> patients_on rs day \<noteq> [] \<or> occupants_on rs day \<noteq> []"

definition covered :: "Solver \<Rightarrow> int \<Rightarrow> string \<Rightarrow> string \<Rightarrow> bool" where
  "covered s day shift rid \<longleftrightarrow>
     (\<exists>na\<in>set (sol_nurses (solution s)). \<exists>sa\<in>set (assignments na).
        sa_day sa = day \<and> sa_shift sa = shift \<and> rid \<in> set (sa_rooms sa))"

text \<open>The triples of a room state, a day of the horizon and a declared shift type.\<close>

definition room_day_shifts :: "Solver \<Rightarrow> (RoomState \<times> int \<times> string) list" where
  "room_day_shifts s =
     List.product (roomStates (solution s))
       (List.product (day_range 0 (days (originalProblem s))) (shift_types (originalProblem s)))"

text \<open>
  The vocabulary of the nurse local search. The encoded nurse blocks follow the working
  shifts of the instance, nurse by nurse and, for one nurse, shift by shift: block \<open>k\<close>
  holds the rooms of the \<open>k\<close>-th working shift in that order.
\<close>

fun block_working_shift :: "Nurse list \<Rightarrow> nat \<Rightarrow> WorkingShift option" where
  "block_working_shift [] k = None"
| "block_working_shift (nurse # ns) k =
     (if k < length (working_shifts nurse) then Some (working_shifts nurse ! k)
      else block_working_shift ns (k - length (working_shifts nurse)))"

text \<open>
  The (day, shift) of block \<open>k\<close>. A block beyond the last working shift has the pair of a
  value-initialised \<^verbatim>\<open>std::pair<int, std::string>\<close>, day 0 and the empty string.
\<close>

definition block_day_shift :: "Nurse list \<Rightarrow> nat \<Rightarrow> int \<times> string" where
  "block_day_shift ns k =
     (case block_working_shift ns k of
        None \<Rightarrow> (0, [])
      | Some ws \<Rightarrow> (ws_day ws, ws_shift ws))"

text \<open>The order of the two nested loops over the blocks: by \<open>i\<close>, then by \<open>j\<close>.\<close>

definition loop_order :: "nat \<times> nat \<Rightarrow> nat \<times> nat \<Rightarrow> bool" where
  "loop_order a b \<longleftrightarrow> fst a < fst b \<or> (fst a = fst b \<and> snd a < snd b)"

text \<open>
  The score of a swap, evaluated in a given solver, and the candidate pairs of blocks
  with equal (day, shift).
\<close>

definition swap_scores :: "Solver \<Rightarrow> EncodedSolution \<Rightarrow> nat \<times> nat \<Rightarrow> fault + (int \<times> int)" where
  "swap_scores s enc ij =
     ebind (applyNurses s (swap_blocks enc (fst ij) (snd ij)))
       (\<lambda>s1. ebind (computeNurseOnlyCosts s1) (\<lambda>(scores, s2). Inr scores))"

definition swap_candidates :: "Nurse list \<Rightarrow> nat \<Rightarrow> (nat \<times> nat) list" where
  "swap_candidates ns n =
     filter (\<lambda>(i, j). block_day_shift ns i = block_day_shift ns j) (block_pairs n)"

text \<open>
  A solver with other cached soft costs, and solvers that differ only in their nurse
  assignments and in the three cached costs that \<^verbatim>\<open>computeNurseOnlyCosts\<close> overwrites.
\<close>

definition with_soft :: "int list \<Rightarrow> int \<Rightarrow> Solver \<Rightarrow> Solver" where
  "with_soft cs t s = s\<lparr>solution := (solution s)\<lparr>soft_constraints := cs, total_soft_constraints := t\<rparr>\<rparr>"

definition nurse_variant :: "Solver \<Rightarrow> Solver \<Rightarrow> bool" where
  "nurse_variant s0 s \<longleftrightarrow>
     problem s = problem s0 \<and> originalProblem s = originalProblem s0 \<and>
     roomStates (solution s) = roomStates (solution s0) \<and>
     theaterStates (solution s) = theaterStates (solution s0) \<and>
     sol_patients (solution s) = sol_patients (solution s0) \<and>
     (\<forall>a b c. (soft_constraints (solution s))[Suc 0 := a, 2 := b, 3 := c] =
              (soft_constraints (solution s0))[Suc 0 := a, 2 := b, 3 := c])"

text \<open>The shift assignment that a working shift and the index of its block give.\<close>

definition block_assignment :: "string list list \<Rightarrow> WorkingShift \<times> nat \<Rightarrow> ShiftAssignment" where
  "block_assignment blocks wk =
     \<lparr>sa_day = ws_day (fst wk), sa_shift = ws_shift (fst wk), sa_rooms = blocks ! snd wk\<rparr>"

text \<open>
  One pair of scores strictly improves over another: strictly fewer hard violations, or
  equal hard violations and a strictly lower soft total.
\<close>

definition strictly_improves :: "int \<times> int \<Rightarrow> int \<times> int \<Rightarrow> bool" where
  "strictly_improves new old \<longleftrightarrow> fst new < fst old \<or> (fst new = fst old \<and> snd new < snd old)"

text \<open>
  The encoded solution \<open>enc'\<close> is \<open>enc\<close> with the two nurse blocks of the pair exchanged and
  nothing else changed.
\<close>

definition blocks_exchanged :: "EncodedSolution \<Rightarrow> nat \<times> nat \<Rightarrow> EncodedSolution \<Rightarrow> bool" where
  "blocks_exchanged enc ij enc' \<longleftrightarrow>
     encoded_patients enc' = encoded_patients enc \<and>
     encoded_nurses enc' =
       map (\<lambda>k. if k = fst ij then encoded_nurses enc ! snd ij
                else if k = snd ij then encoded_nurses enc ! fst ij
                else encoded_nurses enc ! k)
         [0..<length (encoded_nurses enc)]"

text \<open>A solver with other nurse assignments.\<close>

definition with_nurses :: "NurseAssignment list \<Rightarrow> Solver \<Rightarrow> Solver" where
  "with_nurses nas s = s\<lparr>solution := (solution s)\<lparr>sol_nurses := nas\<rparr>\<rparr>"

section \<open>A small instance\<close>

text \<open>
  Two days, one shift type, one room with two beds, two theaters, one surgeon who has
  little time on day 0, two nurses who both work the shift of day 1, one mandatory and
  one optional patient of different genders.
\<close>

definition W_mandatory :: Patient where
  "W_mandatory =
     \<lparr>pat_id = ''p1'', mandatory = True, pat_gender = ''A'', pat_age_group = ''adult'',
      pat_length_of_stay = 1, surgery_release_day = 0, surgery_due_day = 1,
      surgery_duration = 30, surgeon_id = ''s1'', incompatible_room_ids = [],
      pat_workload_produced = [1, 1, 1], pat_skill_level_required = [2]\<rparr>"

definition W_optional :: Patient where
  "W_optional =
     \<lparr>pat_id = ''p2'', mandatory = False, pat_gender = ''B'', pat_age_group = ''adult'',
      pat_length_of_stay = 1, surgery_release_day = 0, surgery_due_day = 0,
      surgery_duration = 30, surgeon_id = ''s1'', incompatible_room_ids = [],
      pat_workload_produced = [1, 1, 1], pat_skill_level_required = [0]\<rparr>"

definition W_problem :: ProblemInstance where
  "W_problem =
     \<lparr>days = 2, shift_types = [''early''], age_groups = [''adult''],
      weights = \<lparr>room_mixed_age = 1, room_nurse_skill = 1, continuity_of_care = 1,
                 nurse_eccessive_workload = 1, open_operating_theater = 1,
                 surgeon_transfer = 1, patient_delay = 1, unscheduled_optional = 1\<rparr>,
      rooms = [\<lparr>room_ident = ''r1'', capacity = 2\<rparr>],
      theaters = [\<lparr>ot_id = ''t1'', availability = [100, 100]\<rparr>,
                  \<lparr>ot_id = ''t2'', availability = [100, 120]\<rparr>],
      surgeons = [\<lparr>sur_id = ''s1'', max_surgery_time = [10, 100]\<rparr>],
      nurses = [\<lparr>nurse_id = ''n1'', skill_level = 0,
                  working_shifts = [\<lparr>ws_day = 1, ws_shift = ''early'', max_load = 5\<rparr>]\<rparr>,
                \<lparr>nurse_id = ''n2'', skill_level = 2,
                  working_shifts = [\<lparr>ws_day = 1, ws_shift = ''early'', max_load = 5\<rparr>]\<rparr>],
      patients = [W_mandatory, W_optional], occupants = []\<rparr>"

definition W_encoded :: EncodedSolution where
  "W_encoded =
     \<lparr>encoded_patients = [\<lparr>patient_id = ''p2'', admission_day = 0, room_id = ''r1''\<rparr>,
                          \<lparr>patient_id = ''p1'', admission_day = 0, room_id = ''r1''\<rparr>],
      encoded_nurses = [[''r1''], []]\<rparr>"

text \<open>The solver of the instance after \<^verbatim>\<open>initializeDynamicStates\<close>.\<close>

definition W_room :: RoomState where
  "W_room = \<lparr>room_info = \<lparr>room_ident = ''r1'', capacity = 2\<rparr>,
             capacity_per_day = [(0, 2), (1, 2)], patients_per_day = [], occupants_per_day = []\<rparr>"

definition W_initial :: Solver where
  "W_initial =
     \<lparr>problem = W_problem, originalProblem = W_problem,
      solution =
        \<lparr>roomStates = [W_room],
         theaterStates =
           [\<lparr>theater_info = \<lparr>ot_id = ''t1'', availability = [100, 100]\<rparr>,
             availability_per_day = [(0, 100), (1, 100)], ot_patients_per_day = []\<rparr>,
            \<lparr>theater_info = \<lparr>ot_id = ''t2'', availability = [100, 120]\<rparr>,
             availability_per_day = [(0, 100), (1, 120)], ot_patients_per_day = []\<rparr>],
         sol_patients = [], sol_nurses = [], soft_constraints = [], total_soft_constraints = 0\<rparr>\<rparr>"

text \<open>The initial solver with the mandatory patient booked into theater t1 on day 1.\<close>

definition W_opened :: Solver where
  "W_opened =
     W_initial\<lparr>solution := (solution W_initial)\<lparr>theaterStates :=
        [\<lparr>theater_info = \<lparr>ot_id = ''t1'', availability = [100, 100]\<rparr>,
          availability_per_day = [(0, 100), (1, 70)], ot_patients_per_day = [(1, [W_mandatory])]\<rparr>,
         \<lparr>theater_info = \<lparr>ot_id = ''t2'', availability = [100, 120]\<rparr>,
          availability_per_day = [(0, 100), (1, 120)], ot_patients_per_day = []\<rparr>]\<rparr>\<rparr>"

definition W_entry :: EncodedPatientSolution where
  "W_entry = \<lparr>patient_id = ''p1'', admission_day = 0, room_id = ''r1''\<rparr>"

definition W_entry2 :: EncodedPatientSolution where
  "W_entry2 = \<lparr>patient_id = ''p2'', admission_day = 0, room_id = ''r1''\<rparr>"

text \<open>A decoded solver with a second shift type that no nurse works; the room is occupied on day 1.\<close>

definition W_two_shifts :: Solver where
  "W_two_shifts =
     \<lparr>problem = W_problem, originalProblem = W_problem\<lparr>shift_types := [''early'', ''late'']\<rparr>,
      solution =
        \<lparr>roomStates = [W_room\<lparr>capacity_per_day := [(0, 2), (1, 1)],
                              patients_per_day := [(1, [W_mandatory])]\<rparr>],
         theaterStates = [],
         sol_patients = [],
         sol_nurses = [\<lparr>na_id = ''n1'',
                        assignments = [\<lparr>sa_day = 1, sa_shift = ''early'', sa_rooms = [''r1'']\<rparr>]\<rparr>],
         soft_constraints = [], total_soft_constraints = 0\<rparr>\<rparr>"

text \<open>The instance with three nurse blocks: the first nurse also works on day 0.\<close>

definition W_problem3 :: ProblemInstance where
  "W_problem3 = W_problem\<lparr>nurses :=
     [\<lparr>nurse_id = ''n1'', skill_level = 0,
        working_shifts = [\<lparr>ws_day = 0, ws_shift = ''early'', max_load = 5\<rparr>,
                          \<lparr>ws_day = 1, ws_shift = ''early'', max_load = 5\<rparr>]\<rparr>,
      \<lparr>nurse_id = ''n2'', skill_level = 2,
        working_shifts = [\<lparr>ws_day = 1, ws_shift = ''early'', max_load = 5\<rparr>]\<rparr>]\<rparr>"

definition W_encoded3 :: EncodedSolution where
  "W_encoded3 = W_encoded\<lparr>encoded_nurses := [[''r1''], [], []]\<rparr>"

section \<open>Basic facts\<close>

lemma ebind_Inl [simp]: "ebind (Inl e) f = Inl e"
  by (simp add: ebind_def)

lemma ebind_Inr [simp]: "ebind (Inr x) f = f x"
  by (simp add: ebind_def)

lemma ebind_eq_Inr: "ebind m f = Inr y \<longleftrightarrow> (\<exists>x. m = Inr x \<and> f x = Inr y)"
  by (cases m) simp_all

lemma ebind_eq_Inl: "ebind m f = Inl e \<longleftrightarrow> m = Inl e \<or> (\<exists>x. m = Inr x \<and> f x = Inl e)"
  by (cases m) simp_all

lemma set_day_range [simp]: "set (day_range a b) = {d. a \<le> d \<and> d < b}"
  by (auto simp: day_range_def)

text \<open>
  The unsigned updates as one narrowing of the exact value: the penalty wraps at 32 bits.
\<close>

lemma to_int_size_t: "to_int (size_t x) = to_int x"
proof -
  have "(2::int) ^ 32 dvd 2 ^ 64" by (simp add: le_imp_power_dvd)
  then have "(x mod 2 ^ 64 + 2 ^ 31) mod 2 ^ 32 = (x + 2 ^ 31) mod (2 ^ 32 :: int)"
    by (metis mod_add_left_eq mod_mod_cancel)
  then show ?thesis by (simp add: to_int_def size_t_def)
qed

lemma to_int_id: "- (2 ^ 31) \<le> x \<Longrightarrow> x < 2 ^ 31 \<Longrightarrow> to_int x = x"
  by (simp add: to_int_def)

lemma add_sized_eq: "add_sized penalty n weight = to_int (penalty + n * weight)"
proof -
  have "size_t (size_t penalty + size_t (n * size_t weight)) = size_t (penalty + n * weight)"
    unfolding size_t_def by (metis mod_add_eq mod_mult_right_eq)
  then show ?thesis by (simp add: add_sized_def to_int_size_t)
qed

lemma add_sized_wraps: "add_sized 0 2 2147483647 = - 2"
  by (simp add: add_sized_eq to_int_def)

text \<open>The order in which the surgeons of one day are visited does not influence the penalty.\<close>

lemma to_int_add_left: "to_int (to_int x + y) = to_int (x + y)"
proof -
  have "(x + 2 ^ 31) mod 2 ^ 32 - 2 ^ 31 + y + 2 ^ 31 = (x + 2 ^ 31) mod 2 ^ 32 + y"
    by simp
  moreover have "((x + 2 ^ 31) mod 2 ^ 32 + y) mod 2 ^ 32 = (x + 2 ^ 31 + y) mod (2 ^ 32 :: int)"
    by (rule mod_add_left_eq)
  moreover have "x + 2 ^ 31 + y = x + y + (2 ^ 31 :: int)"
    by simp
  ultimately have "((x + 2 ^ 31) mod 2 ^ 32 - 2 ^ 31 + y + 2 ^ 31) mod 2 ^ 32 =
                   (x + y + 2 ^ 31) mod (2 ^ 32 :: int)"
    by (simp only:)
  then show ?thesis unfolding to_int_def by (simp only:)
qed

lemma add_sized_commute:
  "add_sized (add_sized penalty a weight) b weight = add_sized (add_sized penalty b weight) a weight"
proof -
  have "to_int (to_int (penalty + a * weight) + b * weight) = to_int (to_int (penalty + b * weight) + a * weight)"
    unfolding to_int_add_left by (simp add: add.commute add.left_commute)
  then show ?thesis by (simp add: add_sized_eq)
qed

lemma skill_index_eq: "skill_index index n shiftIndex = to_int (index * int n + int shiftIndex)"
proof -
  have "size_t (size_t (size_t index * int n) + size_t (int shiftIndex)) = size_t (index * int n + int shiftIndex)"
    unfolding size_t_def by (metis mod_add_eq mod_mult_left_eq)
  then show ?thesis by (simp add: skill_index_def to_int_size_t)
qed

lemma W_initial_is_init: "initializeDynamicStates (new_Solver W_problem) = Inr W_initial"
  by (simp add: initializeDynamicStates_def new_Solver_def W_problem_def W_initial_def W_room_def
      init_theater_def init_room_def day_range_def assign_at_def upto.simps Let_def)

section \<open>The room check\<close>

lemma room_days_ok_iff:
  "room_days_ok rs patient ds \<longleftrightarrow>
     (\<forall>day\<in>set ds.
        (\<exists>c. map_of (capacity_per_day rs) day = Some c \<and> 0 < c) \<and>
        (\<forall>q\<in>set (patients_on rs day). pat_gender q = pat_gender patient) \<and>
        (\<forall>q\<in>set (occupants_on rs day). occ_gender q = pat_gender patient))"
proof (induction ds)
  case Nil
  show ?case by simp
next
  case (Cons d ds)
  show ?case
    by (cases "map_of (capacity_per_day rs) d"; cases "map_of (patients_per_day rs) d";
        cases "map_of (occupants_per_day rs) d")
       (simp_all add: Cons.IH patients_on_def occupants_on_def list_ex_iff, blast+)
qed

text \<open>
  C4. For a room identifier that some room state carries, \<^verbatim>\<open>checkRoomAvailability\<close>
  returns true exactly when on every day from the admission day up to, and excluding,
  the smaller of admission day plus length of stay and the number of days of the
  horizon, the room state found has a capacity entry that is strictly positive and every
  patient already assigned to the room that day and every occupant of that day has the
  gender of the candidate. For an identifier that no room state carries it raises the
  not-found fault and returns no boolean.
\<close>

theorem checkRoomAvailability_iff:
  "(\<forall>rs. find (\<lambda>rs. room_ident (room_info rs) = rid) (roomStates (solution s)) = Some rs \<longrightarrow>
      checkRoomAvailability s patient ad rid =
        Inr (\<forall>day. ad \<le> day \<and> day < min (ad + pat_length_of_stay patient) (days (problem s)) \<longrightarrow>
               (\<exists>c. map_of (capacity_per_day rs) day = Some c \<and> 0 < c) \<and>
               (\<forall>q\<in>set (patients_on rs day). pat_gender q = pat_gender patient) \<and>
               (\<forall>q\<in>set (occupants_on rs day). occ_gender q = pat_gender patient))) \<and>
   (rid \<notin> set (map (\<lambda>rs. room_ident (room_info rs)) (roomStates (solution s))) \<longrightarrow>
      checkRoomAvailability s patient ad rid = Inl (NotFound ''room''))"
proof (intro conjI allI impI)
  fix rs
  assume "find (\<lambda>rs. room_ident (room_info rs) = rid) (roomStates (solution s)) = Some rs"
  then show "checkRoomAvailability s patient ad rid =
        Inr (\<forall>day. ad \<le> day \<and> day < min (ad + pat_length_of_stay patient) (days (problem s)) \<longrightarrow>
               (\<exists>c. map_of (capacity_per_day rs) day = Some c \<and> 0 < c) \<and>
               (\<forall>q\<in>set (patients_on rs day). pat_gender q = pat_gender patient) \<and>
               (\<forall>q\<in>set (occupants_on rs day). occ_gender q = pat_gender patient))"
    unfolding checkRoomAvailability_def room_days_ok_iff set_day_range
    by (simp only: option.case mem_Collect_eq Ball_def)
next
  assume "rid \<notin> set (map (\<lambda>rs. room_ident (room_info rs)) (roomStates (solution s)))"
  then have "find (\<lambda>rs. room_ident (room_info rs) = rid) (roomStates (solution s)) = None"
    unfolding find_None_iff by auto
  then show "checkRoomAvailability s patient ad rid = Inl (NotFound ''room'')"
    unfolding checkRoomAvailability_def by (simp only: option.case)
qed

theorem checkRoomAvailability_iff_witness:
  "find (\<lambda>rs. room_ident (room_info rs) = ''r1'') (roomStates (solution W_initial)) = Some W_room \<and>
   checkRoomAvailability W_initial W_mandatory 0 ''r1'' = Inr True \<and>
   ''r9'' \<notin> set (map (\<lambda>rs. room_ident (room_info rs)) (roomStates (solution W_initial))) \<and>
   checkRoomAvailability W_initial W_mandatory 0 ''r9'' = Inl (NotFound ''room'')"
proof -
  have f: "find (\<lambda>rs. room_ident (room_info rs) = ''r1'') (roomStates (solution W_initial)) = Some W_room"
    by (simp add: W_initial_def W_room_def)
  have n: "''r9'' \<notin> set (map (\<lambda>rs. room_ident (room_info rs)) (roomStates (solution W_initial)))"
    by (simp add: W_initial_def W_room_def)
  have d: "\<And>day::int. 0 \<le> day \<and> day < 1 \<longleftrightarrow> day = 0"
    by auto
  from checkRoomAvailability_iff [of "''r1''" W_initial W_mandatory 0] f
  have "checkRoomAvailability W_initial W_mandatory 0 ''r1'' =
          Inr (\<forall>day. 0 \<le> day \<and> day < min (0 + pat_length_of_stay W_mandatory) (days (problem W_initial)) \<longrightarrow>
               (\<exists>c. map_of (capacity_per_day W_room) day = Some c \<and> 0 < c) \<and>
               (\<forall>q\<in>set (patients_on W_room day). pat_gender q = pat_gender W_mandatory) \<and>
               (\<forall>q\<in>set (occupants_on W_room day). occ_gender q = pat_gender W_mandatory))"
    by blast
  then have "checkRoomAvailability W_initial W_mandatory 0 ''r1'' = Inr True"
    by (simp add: W_mandatory_def W_initial_def W_problem_def W_room_def d patients_on_def occupants_on_def)
  moreover from checkRoomAvailability_iff [of "''r9''" W_initial W_mandatory 0] n
  have "checkRoomAvailability W_initial W_mandatory 0 ''r9'' = Inl (NotFound ''room'')"
    by blast
  ultimately show ?thesis using f n by blast
qed

section \<open>The theater selection\<close>

lemma value_at_subscript [simp]: "value_at (subscript m d dflt) d' dflt = value_at m d' dflt"
  by (cases "map_of m d"; cases "map_of m d'") (simp_all add: value_at_def subscript_def map_add_def)

lemma avail_touch [simp]: "avail (touch_availability t d) d' = avail t d'"
  by (simp add: avail_def touch_availability_def)

lemma is_open_touch [simp]: "is_open (touch_availability t d) d' = is_open t d'"
  by (simp add: is_open_def touch_availability_def)

lemma theater_info_touch [simp]: "theater_info (touch_availability t d) = theater_info t"
  by (simp add: touch_availability_def)

lemma pick_tightest_min:
  "bestRemaining = remaining b \<Longrightarrow>
   pick_tightest remaining is b bestRemaining \<in> insert b (set is) \<and>
   (\<forall>j\<in>insert b (set is). remaining (pick_tightest remaining is b bestRemaining) \<le> remaining j)"
proof (induction "is" arbitrary: b bestRemaining)
  case Nil
  then show ?case by simp
next
  case (Cons i "is")
  show ?case
  proof (cases "remaining i < bestRemaining")
    case True
    with Cons.IH [of "remaining i" i] Cons.prems show ?thesis by fastforce
  next
    case False
    with Cons.IH [of bestRemaining b] Cons.prems show ?thesis by fastforce
  qed
qed

lemma pick_largest_max:
  "bestCapacity = cap b \<Longrightarrow>
   pick_largest cap is b bestCapacity \<in> insert b (set is) \<and>
   (\<forall>j\<in>insert b (set is). cap j \<le> cap (pick_largest cap is b bestCapacity))"
proof (induction "is" arbitrary: b bestCapacity)
  case Nil
  then show ?case by simp
next
  case (Cons i "is")
  show ?case
  proof (cases "cap i > bestCapacity")
    case True
    with Cons.IH [of "cap i" i] Cons.prems show ?thesis by fastforce
  next
    case False
    with Cons.IH [of bestCapacity b] Cons.prems show ?thesis by fastforce
  qed
qed

lemma set_openTheaters:
  "set (openTheaters tss patient day) = {i. fits tss patient day i \<and> is_open (tss ! i) day}"
  by (auto simp: openTheaters_def fits_def)

lemma set_closedTheaters:
  "set (closedTheaters tss patient day) = {i. fits tss patient day i \<and> \<not> is_open (tss ! i) day}"
  by (auto simp: closedTheaters_def fits_def)

lemma chooseTheater_open:
  assumes "\<exists>i. fits tss patient day i \<and> is_open (tss ! i) day"
  shows "\<exists>k. chooseTheater tss patient day = Some k \<and> fits tss patient day k \<and> is_open (tss ! k) day \<and>
           (\<forall>j. fits tss patient day j \<and> is_open (tss ! j) day \<longrightarrow>
                avail (tss ! k) day - surgery_duration patient \<le> avail (tss ! j) day - surgery_duration patient)"
proof -
  let ?opn = "openTheaters tss patient day"
  let ?rem = "\<lambda>i. avail (tss ! i) day - surgery_duration patient"
  let ?k = "pick_tightest ?rem ?opn (hd ?opn) (?rem (hd ?opn))"
  from assms have ne: "?opn \<noteq> []"
    using set_openTheaters [of tss patient day] by (metis (mono_tags, lifting) empty_iff mem_Collect_eq set_empty)
  then have hd: "insert (hd ?opn) (set ?opn) = set ?opn" by auto
  have "?k \<in> set ?opn \<and> (\<forall>j\<in>set ?opn. ?rem ?k \<le> ?rem j)"
    using pick_tightest_min [of "?rem (hd ?opn)" ?rem "hd ?opn" ?opn] hd by simp
  moreover have "chooseTheater tss patient day = Some ?k"
    using ne by (simp add: chooseTheater_def Let_def)
  ultimately show ?thesis
    unfolding set_openTheaters by blast
qed

lemma chooseTheater_closed:
  assumes "\<not> (\<exists>i. fits tss patient day i \<and> is_open (tss ! i) day)" and "\<exists>i. fits tss patient day i"
  shows "\<exists>k. chooseTheater tss patient day = Some k \<and> fits tss patient day k \<and> \<not> is_open (tss ! k) day \<and>
           (\<forall>j. fits tss patient day j \<longrightarrow> avail (tss ! j) day \<le> avail (tss ! k) day)"
proof -
  let ?opn = "openTheaters tss patient day"
  let ?cls = "closedTheaters tss patient day"
  let ?cap = "\<lambda>i. avail (tss ! i) day"
  let ?k = "pick_largest ?cap ?cls (hd ?cls) (?cap (hd ?cls))"
  from assms(1) have e: "?opn = []"
    using set_openTheaters [of tss patient day] by (metis (mono_tags, lifting) Collect_empty_eq set_empty)
  from assms have "set ?cls \<noteq> {}"
    unfolding set_closedTheaters by blast
  then have ne: "?cls \<noteq> []" by auto
  then have hd: "insert (hd ?cls) (set ?cls) = set ?cls" by auto
  have "?k \<in> set ?cls \<and> (\<forall>j\<in>set ?cls. ?cap j \<le> ?cap ?k)"
    using pick_largest_max [of "?cap (hd ?cls)" ?cap "hd ?cls" ?cls] hd by simp
  moreover have "chooseTheater tss patient day = Some ?k"
    using ne e by (simp add: chooseTheater_def Let_def)
  ultimately show ?thesis
    unfolding set_closedTheaters using assms(1) by blast
qed

lemma chooseTheater_none:
  assumes "\<not> (\<exists>i. fits tss patient day i)"
  shows "chooseTheater tss patient day = None"
proof -
  have "set (openTheaters tss patient day) = {}" "set (closedTheaters tss patient day) = {}"
    unfolding set_openTheaters set_closedTheaters using assms by blast+
  then show ?thesis by (simp add: chooseTheater_def Let_def)
qed

lemma fits_touch [simp]:
  "fits (map (\<lambda>t. touch_availability t day) tss) patient day' i = fits tss patient day' i"
  by (auto simp: fits_def)

text \<open>
  C3. \<^verbatim>\<open>assignOperatingTheater\<close> books a theater that fits the surgery on the day and is
  open (its patient list of that day is not empty), and of these one whose availability
  after subtracting the surgery duration is smallest. When no fitting theater is open it
  books a fitting unused theater, and of these one with the largest availability. When
  no theater fits it raises the exhausted fault. In both successful cases the identifier
  of the booked theater is returned and only that theater is booked.
\<close>

theorem assignOperatingTheater_policy:
  assumes "tss = theaterStates (solution s)"
  shows
  "((\<exists>i. fits tss patient day i \<and> is_open (tss ! i) day) \<longrightarrow>
      (\<exists>k s'. assignOperatingTheater s patient day = Inr (ot_id (theater_info (tss ! k)), s') \<and>
          fits tss patient day k \<and> is_open (tss ! k) day \<and>
          (\<forall>j. fits tss patient day j \<and> is_open (tss ! j) day \<longrightarrow>
               avail (tss ! k) day - surgery_duration patient
                 \<le> avail (tss ! j) day - surgery_duration patient) \<and>
          theaterStates (solution s') =
            (map (\<lambda>t. touch_availability t day) tss)
              [k := book_theater (touch_availability (tss ! k) day) patient day])) \<and>
   (\<not> (\<exists>i. fits tss patient day i \<and> is_open (tss ! i) day) \<and> (\<exists>i. fits tss patient day i) \<longrightarrow>
      (\<exists>k s'. assignOperatingTheater s patient day = Inr (ot_id (theater_info (tss ! k)), s') \<and>
          fits tss patient day k \<and> \<not> is_open (tss ! k) day \<and>
          (\<forall>j. fits tss patient day j \<longrightarrow> avail (tss ! j) day \<le> avail (tss ! k) day) \<and>
          theaterStates (solution s') =
            (map (\<lambda>t. touch_availability t day) tss)
              [k := book_theater (touch_availability (tss ! k) day) patient day])) \<and>
   (\<not> (\<exists>i. fits tss patient day i) \<longrightarrow>
      assignOperatingTheater s patient day = Inl (Exhausted ''theater''))"
proof -
  let ?tss = "map (\<lambda>t. touch_availability t day) tss"
  have op: "\<And>i. fits tss patient day i \<Longrightarrow> is_open (?tss ! i) day = is_open (tss ! i) day"
    by (simp add: fits_def)
  have av: "\<And>i. fits tss patient day i \<Longrightarrow> avail (?tss ! i) day = avail (tss ! i) day"
    by (simp add: fits_def)
  have inf: "\<And>i. fits tss patient day i \<Longrightarrow> theater_info (?tss ! i) = theater_info (tss ! i)"
    by (simp add: fits_def)
  have nth: "\<And>i. fits tss patient day i \<Longrightarrow> ?tss ! i = touch_availability (tss ! i) day"
    by (simp add: fits_def)
  have run: "\<And>k. chooseTheater ?tss patient day = Some k \<Longrightarrow>
      assignOperatingTheater s patient day =
        Inr (ot_id (theater_info (?tss ! k)),
             s\<lparr>solution := (solution s)\<lparr>theaterStates := ?tss[k := book_theater (?tss ! k) patient day]\<rparr>\<rparr>)"
    by (simp add: assignOperatingTheater_def assms Let_def)
  have A: "\<exists>k s'. assignOperatingTheater s patient day = Inr (ot_id (theater_info (tss ! k)), s') \<and>
          fits tss patient day k \<and> is_open (tss ! k) day \<and>
          (\<forall>j. fits tss patient day j \<and> is_open (tss ! j) day \<longrightarrow>
               avail (tss ! k) day - surgery_duration patient
                 \<le> avail (tss ! j) day - surgery_duration patient) \<and>
          theaterStates (solution s') =
            (map (\<lambda>t. touch_availability t day) tss)
              [k := book_theater (touch_availability (tss ! k) day) patient day]"
    if h: "\<exists>i. fits tss patient day i \<and> is_open (tss ! i) day"
  proof -
    from h have "\<exists>i. fits ?tss patient day i \<and> is_open (?tss ! i) day"
      using op by auto
    from chooseTheater_open [OF this]
    obtain k where k: "chooseTheater ?tss patient day = Some k" "fits tss patient day k"
      "is_open (?tss ! k) day"
      "\<forall>j. fits tss patient day j \<and> is_open (?tss ! j) day \<longrightarrow>
            avail (?tss ! k) day - surgery_duration patient \<le> avail (?tss ! j) day - surgery_duration patient"
      by auto
    have m: "\<forall>j. fits tss patient day j \<and> is_open (tss ! j) day \<longrightarrow>
            avail (tss ! k) day - surgery_duration patient \<le> avail (tss ! j) day - surgery_duration patient"
      using k(4) k(2) op av by auto
    have o: "is_open (tss ! k) day" using k(2,3) op by simp
    let ?s' = "s\<lparr>solution := (solution s)\<lparr>theaterStates := ?tss[k := book_theater (?tss ! k) patient day]\<rparr>\<rparr>"
    have "assignOperatingTheater s patient day = Inr (ot_id (theater_info (tss ! k)), ?s')"
      using run [OF k(1)] k(2) by (simp add: inf)
    moreover have "theaterStates (solution ?s') =
            (map (\<lambda>t. touch_availability t day) tss)
              [k := book_theater (touch_availability (tss ! k) day) patient day]"
      using k(2) by (simp add: nth)
    ultimately show ?thesis
      using k(2) m o by blast
  qed
  have B: "\<exists>k s'. assignOperatingTheater s patient day = Inr (ot_id (theater_info (tss ! k)), s') \<and>
          fits tss patient day k \<and> \<not> is_open (tss ! k) day \<and>
          (\<forall>j. fits tss patient day j \<longrightarrow> avail (tss ! j) day \<le> avail (tss ! k) day) \<and>
          theaterStates (solution s') =
            (map (\<lambda>t. touch_availability t day) tss)
              [k := book_theater (touch_availability (tss ! k) day) patient day]"
    if h: "\<not> (\<exists>i. fits tss patient day i \<and> is_open (tss ! i) day)" "\<exists>i. fits tss patient day i"
  proof -
    from h have "\<not> (\<exists>i. fits ?tss patient day i \<and> is_open (?tss ! i) day)" "\<exists>i. fits ?tss patient day i"
      using op by auto
    from chooseTheater_closed [OF this]
    obtain k where k: "chooseTheater ?tss patient day = Some k" "fits tss patient day k"
      "\<not> is_open (?tss ! k) day"
      "\<forall>j. fits tss patient day j \<longrightarrow> avail (?tss ! j) day \<le> avail (?tss ! k) day"
      by auto
    have m: "\<forall>j. fits tss patient day j \<longrightarrow> avail (tss ! j) day \<le> avail (tss ! k) day"
      using k(4) k(2) av by auto
    have o: "\<not> is_open (tss ! k) day" using k(2,3) op by simp
    let ?s' = "s\<lparr>solution := (solution s)\<lparr>theaterStates := ?tss[k := book_theater (?tss ! k) patient day]\<rparr>\<rparr>"
    have "assignOperatingTheater s patient day = Inr (ot_id (theater_info (tss ! k)), ?s')"
      using run [OF k(1)] k(2) by (simp add: inf)
    moreover have "theaterStates (solution ?s') =
            (map (\<lambda>t. touch_availability t day) tss)
              [k := book_theater (touch_availability (tss ! k) day) patient day]"
      using k(2) by (simp add: nth)
    ultimately show ?thesis
      using k(2) m o by blast
  qed
  have C: "assignOperatingTheater s patient day = Inl (Exhausted ''theater'')"
    if h: "\<not> (\<exists>i. fits tss patient day i)"
  proof -
    from h have "\<not> (\<exists>i. fits ?tss patient day i)" by simp
    from chooseTheater_none [OF this] show ?thesis
      by (simp add: assignOperatingTheater_def assms Let_def)
  qed
  from A B C show ?thesis by blast
qed

lemma less_two: "(k::nat) < 2 \<longleftrightarrow> k = 0 \<or> k = 1"
  by auto

theorem assignOperatingTheater_policy_witness:
  "(\<exists>s'. assignOperatingTheater W_opened W_optional 1 = Inr (''t1'', s')) \<and>
   (\<exists>s'. assignOperatingTheater W_initial W_optional 1 = Inr (''t2'', s')) \<and>
   assignOperatingTheater W_initial (W_optional\<lparr>surgery_duration := 500\<rparr>) 1 = Inl (Exhausted ''theater'')"
proof (intro conjI)
  let ?o = "theaterStates (solution W_opened)"
  let ?i = "theaterStates (solution W_initial)"
  have o0: "fits ?o W_optional 1 0 \<and> is_open (?o ! 0) 1"
    by (simp add: fits_def is_open_def avail_def value_at_def W_opened_def W_initial_def W_optional_def)
  have o1: "\<not> is_open (?o ! 1) 1"
    by (simp add: is_open_def W_opened_def W_initial_def)
  have lo: "length ?o = 2" by (simp add: W_opened_def W_initial_def)
  from assignOperatingTheater_policy [OF refl, of W_opened W_optional 1] o0
  obtain k s' where k: "assignOperatingTheater W_opened W_optional 1 = Inr (ot_id (theater_info (?o ! k)), s')"
    "fits ?o W_optional 1 k" "is_open (?o ! k) 1"
    by blast
  from k(2) lo have "k = 0 \<or> k = 1" by (simp add: fits_def less_two)
  with k(3) o1 have "k = 0" by blast
  with k(1) show "\<exists>s'. assignOperatingTheater W_opened W_optional 1 = Inr (''t1'', s')"
    by (simp add: W_opened_def W_initial_def)
next
  let ?i = "theaterStates (solution W_initial)"
  have li: "length ?i = 2" by (simp add: W_initial_def)
  have c: "\<not> is_open (?i ! 0) 1" "\<not> is_open (?i ! 1) 1"
    by (simp_all add: is_open_def W_initial_def)
  have f: "fits ?i W_optional 1 0" "fits ?i W_optional 1 1"
    by (simp_all add: fits_def avail_def value_at_def W_initial_def W_optional_def)
  have a: "avail (?i ! 0) 1 = 100" "avail (?i ! 1) 1 = 120"
    by (simp_all add: avail_def value_at_def W_initial_def)
  have "\<not> (\<exists>i. fits ?i W_optional 1 i \<and> is_open (?i ! i) 1)"
  proof
    assume "\<exists>i. fits ?i W_optional 1 i \<and> is_open (?i ! i) 1"
    then obtain i where i: "fits ?i W_optional 1 i" "is_open (?i ! i) 1" by blast
    from i(1) li have "i = 0 \<or> i = 1" by (simp add: fits_def less_two)
    with i(2) c show False by auto
  qed
  with assignOperatingTheater_policy [OF refl, of W_initial W_optional 1] f
  obtain k s' where k: "assignOperatingTheater W_initial W_optional 1 = Inr (ot_id (theater_info (?i ! k)), s')"
    "fits ?i W_optional 1 k" "\<forall>j. fits ?i W_optional 1 j \<longrightarrow> avail (?i ! j) 1 \<le> avail (?i ! k) 1"
    by blast
  from k(2) li have "k = 0 \<or> k = 1" by (simp add: fits_def less_two)
  moreover have "k \<noteq> 0"
  proof
    assume "k = 0"
    with k(3) f(2) have "avail (?i ! 1) 1 \<le> avail (?i ! 0) 1" by blast
    with a show False by simp
  qed
  ultimately have "k = 1" by blast
  with k(1) show "\<exists>s'. assignOperatingTheater W_initial W_optional 1 = Inr (''t2'', s')"
    by (simp add: W_initial_def)
next
  let ?i = "theaterStates (solution W_initial)"
  let ?p = "W_optional\<lparr>surgery_duration := 500\<rparr>"
  have li: "length ?i = 2" by (simp add: W_initial_def)
  have a: "avail (?i ! 0) 1 = 100" "avail (?i ! 1) 1 = 120"
    by (simp_all add: avail_def value_at_def W_initial_def)
  have "\<not> (\<exists>i. fits ?i ?p 1 i)"
  proof
    assume "\<exists>i. fits ?i ?p 1 i"
    then obtain i where i: "fits ?i ?p 1 i" by blast
    from i li have "i = 0 \<or> i = 1" by (simp add: fits_def less_two)
    with i a show False by (auto simp: fits_def W_optional_def)
  qed
  with assignOperatingTheater_policy [OF refl, of W_initial ?p 1]
  show "assignOperatingTheater W_initial ?p 1 = Inl (Exhausted ''theater'')"
    by blast
qed

section \<open>The checks read the pools\<close>

lemma subscript_present: "map_of m d \<noteq> None \<Longrightarrow> subscript m d x = m"
  by (auto simp: subscript_def)

lemma subscript_idem [simp]: "subscript (subscript m d x) d x = subscript m d x"
  by (cases "map_of m d") (simp_all add: subscript_def map_add_def)

lemma touch_idem [simp]: "touch_availability (touch_availability t d) d = touch_availability t d"
  by (simp add: touch_availability_def)

lemma touch_present: "map_of (availability_per_day t) d \<noteq> None \<Longrightarrow> touch_availability t d = t"
  by (simp add: touch_availability_def subscript_present)

lemma checkTheaters_idem:
  "checkTheaters ts patient day = (b, ts') \<Longrightarrow> checkTheaters ts' patient day = (b, ts')"
proof (induction ts arbitrary: b ts')
  case Nil
  then show ?case by simp
next
  case (Cons t ts)
  show ?case
  proof (cases "avail t day \<ge> surgery_duration patient")
    case True
    with Cons.prems show ?thesis by auto
  next
    case False
    obtain c us where r: "checkTheaters ts patient day = (c, us)" by (cases "checkTheaters ts patient day")
    with Cons.IH have "checkTheaters us patient day = (c, us)" by blast
    with False r Cons.prems show ?thesis by auto
  qed
qed

lemma checkTheaters_present:
  "\<forall>t\<in>set ts. map_of (availability_per_day t) day \<noteq> None \<Longrightarrow>
   checkTheaters ts patient day = (b, ts') \<Longrightarrow> ts' = ts"
proof (induction ts arbitrary: b ts')
  case Nil
  then show ?case by simp
next
  case (Cons t ts)
  obtain c us where r: "checkTheaters ts patient day = (c, us)" by (cases "checkTheaters ts patient day")
  with Cons.IH Cons.prems(1) have "us = ts" by simp
  with r Cons.prems show ?case
    by (auto simp: touch_present split: if_splits)
qed

lemma checkOperatingTheaterAvailability_idem:
  "checkOperatingTheaterAvailability s patient day = (b, s') \<Longrightarrow>
   checkOperatingTheaterAvailability s' patient day = (b, s')"
proof -
  assume a: "checkOperatingTheaterAvailability s patient day = (b, s')"
  obtain c ts where r: "checkTheaters (theaterStates (solution s)) patient day = (c, ts)"
    by (cases "checkTheaters (theaterStates (solution s)) patient day")
  from checkTheaters_idem [OF r] r a show ?thesis
    by (auto simp: checkOperatingTheaterAvailability_def)
qed

lemma checkOperatingTheaterAvailability_frame:
  "checkOperatingTheaterAvailability s patient day = (b, s') \<Longrightarrow>
   problem s' = problem s \<and> originalProblem s' = originalProblem s \<and>
   (\<exists>ts. solution s' = (solution s)\<lparr>theaterStates := ts\<rparr>)"
  by (auto simp: checkOperatingTheaterAvailability_def split: prod.splits)

lemma availability_listedD:
  "availability_listed s \<Longrightarrow> 0 \<le> d \<Longrightarrow> d < days (problem s) \<Longrightarrow>
   \<forall>t\<in>set (theaterStates (solution s)). map_of (availability_per_day t) d \<noteq> None"
  by (simp add: availability_listed_def list_all_iff)

lemma checkOperatingTheaterAvailability_listed:
  assumes "availability_listed s" "0 \<le> day" "day < days (problem s)"
    and "checkOperatingTheaterAvailability s patient day = (b, s')"
  shows "s' = s"
proof -
  obtain c ts where r: "checkTheaters (theaterStates (solution s)) patient day = (c, ts)"
    by (cases "checkTheaters (theaterStates (solution s)) patient day")
  from checkTheaters_present [OF availability_listedD [OF assms(1-3)] r] r assms(4)
  show ?thesis by (simp add: checkOperatingTheaterAvailability_def)
qed

lemma checkSurgeonAvailability_cong:
  assumes "problem s' = problem s"
  shows "checkSurgeonAvailability s' patient day = checkSurgeonAvailability s patient day"
  unfolding checkSurgeonAvailability_def assms by simp

lemma checkSurgeonAvailability_day:
  "checkSurgeonAvailability s patient day = Inr b \<Longrightarrow> 0 \<le> day"
  by (auto simp: checkSurgeonAvailability_def split: option.splits if_splits)

lemma checkRoomAvailability_cong:
  assumes "problem s' = problem s" and "roomStates (solution s') = roomStates (solution s)"
  shows "checkRoomAvailability s' patient day rid = checkRoomAvailability s patient day rid"
  unfolding checkRoomAvailability_def assms by simp

text \<open>What a successful \<open>checkAll\<close> says about its three parts.\<close>

lemma checkAll_cases:
  assumes "checkAll s patient day rid = Inr (b, s')"
  shows "(checkSurgeonAvailability s patient day = Inr False \<and> \<not> b \<and> s' = s) \<or>
         (checkSurgeonAvailability s patient day = Inr True \<and>
          checkOperatingTheaterAvailability s patient day = (False, s') \<and> \<not> b) \<or>
         (checkSurgeonAvailability s patient day = Inr True \<and>
          checkOperatingTheaterAvailability s patient day = (True, s') \<and>
          checkRoomAvailability s' patient day rid = Inr b)"
proof -
  from assms obtain b1 where b1: "checkSurgeonAvailability s patient day = Inr b1"
    by (auto simp: checkAll_def ebind_eq_Inr)
  obtain b2 s2 where b2: "checkOperatingTheaterAvailability s patient day = (b2, s2)"
    by (cases "checkOperatingTheaterAvailability s patient day")
  from assms b1 b2 show ?thesis
    by (cases b1; cases b2) (auto simp: checkAll_def ebind_eq_Inr)
qed

lemma checkAll_frame:
  assumes "checkAll s patient day rid = Inr (b, s')"
  shows "problem s' = problem s \<and> originalProblem s' = originalProblem s \<and>
         (\<exists>ts. solution s' = (solution s)\<lparr>theaterStates := ts\<rparr>)"
proof -
  have "\<exists>ts. solution s = (solution s)\<lparr>theaterStates := ts\<rparr>"
    by (rule exI [of _ "theaterStates (solution s)"]) simp
  with checkAll_cases [OF assms] checkOperatingTheaterAvailability_frame show ?thesis
    by metis
qed

lemma checkAll_listed:
  assumes "availability_listed s" "day < days (problem s)" "checkAll s patient day rid = Inr (b, s')"
  shows "s' = s"
  using checkAll_cases [OF assms(3)] checkSurgeonAvailability_day
    checkOperatingTheaterAvailability_listed [OF assms(1) _ assms(2)]
  by metis

lemma checkAll_sound:
  assumes "checkAll s patient day rid = Inr (True, s')"
  shows "checkSurgeonAvailability s' patient day = Inr True \<and>
         checkOperatingTheaterAvailability s' patient day = (True, s') \<and>
         checkRoomAvailability s' patient day rid = Inr True"
proof -
  from checkAll_cases [OF assms]
  have c: "checkSurgeonAvailability s patient day = Inr True"
    "checkOperatingTheaterAvailability s patient day = (True, s')"
    "checkRoomAvailability s' patient day rid = Inr True"
    by auto
  from checkOperatingTheaterAvailability_frame [OF c(2)] have "problem s' = problem s" by simp
  from checkSurgeonAvailability_cong [OF this] c(1)
  have "checkSurgeonAvailability s' patient day = Inr True" by simp
  with checkOperatingTheaterAvailability_idem [OF c(2)] c(3) show ?thesis by simp
qed

section \<open>The repair loops\<close>

lemma revert_enc [simp]:
  "enc\<lparr>admission_day := d, room_id := r\<rparr>\<lparr>admission_day := admission_day enc, room_id := room_id enc\<rparr> = enc"
  by simp

lemma repair_rooms_step:
  assumes "room_ident room \<notin> set (incompatible_room_ids patient)"
    and "repair_rooms s patient newDay (room # rest) enc = Inr (r, s')"
  shows "\<exists>ok s1. checkAll s patient newDay (room_ident room) = Inr (ok, s1) \<and>
           (if ok then r = (True, enc\<lparr>admission_day := newDay, room_id := room_ident room\<rparr>) \<and> s' = s1
            else repair_rooms s1 patient newDay rest enc = Inr (r, s'))"
proof -
  from assms obtain x where x: "checkAll s patient newDay (room_ident room) = Inr x"
    by (auto simp: ebind_eq_Inr Let_def)
  obtain ok s1 where "x = (ok, s1)" by (cases x)
  with x assms show ?thesis
    by (auto simp: Let_def)
qed

lemma repair_rooms_result:
  "repair_rooms s patient newDay rms enc = Inr ((found, enc'), s') \<Longrightarrow>
     problem s' = problem s \<and> originalProblem s' = originalProblem s \<and>
     (\<exists>ts. solution s' = (solution s)\<lparr>theaterStates := ts\<rparr>) \<and>
     patient_id enc' = patient_id enc \<and>
     (if found
      then admission_day enc' = newDay \<and> room_id enc' \<in> set (map room_ident rms) \<and>
           room_id enc' \<notin> set (incompatible_room_ids patient) \<and>
           checkAll s' patient newDay (room_id enc') = Inr (True, s')
      else enc' = enc)"
proof (induction rms arbitrary: s)
  case Nil
  then show ?case by (auto intro: exI [of _ "theaterStates (solution s)"])
next
  case (Cons room rest)
  show ?case
  proof (cases "room_ident room \<in> set (incompatible_room_ids patient)")
    case True
    with Cons.prems have "repair_rooms s patient newDay rest enc = Inr ((found, enc'), s')" by simp
    from Cons.IH [OF this] show ?thesis by (auto split: if_splits)
  next
    case False
    from repair_rooms_step [OF False Cons.prems]
    obtain ok s1 where c: "checkAll s patient newDay (room_ident room) = Inr (ok, s1)"
      and r: "if ok then (found, enc') = (True, enc\<lparr>admission_day := newDay, room_id := room_ident room\<rparr>) \<and> s' = s1
              else repair_rooms s1 patient newDay rest enc = Inr ((found, enc'), s')"
      by blast
    note f = checkAll_frame [OF c]
    show ?thesis
    proof (cases ok)
      case True
      with r have e: "found" "enc' = enc\<lparr>admission_day := newDay, room_id := room_ident room\<rparr>" "s' = s1"
        by auto
      from c True checkAll_sound [of s patient newDay "room_ident room" s1]
      have "checkSurgeonAvailability s1 patient newDay = Inr True"
        "checkOperatingTheaterAvailability s1 patient newDay = (True, s1)"
        "checkRoomAvailability s1 patient newDay (room_ident room) = Inr True"
        by auto
      then have "checkAll s1 patient newDay (room_ident room) = Inr (True, s1)"
        by (simp add: checkAll_def)
      with e f False show ?thesis by simp
    next
      case False
      with r have "repair_rooms s1 patient newDay rest enc = Inr ((found, enc'), s')" by simp
      from Cons.IH [OF this] f show ?thesis
        by (auto split: if_splits)
    qed
  qed
qed

lemma repair_rooms_listed:
  "availability_listed s \<Longrightarrow> newDay < days (problem s) \<Longrightarrow>
   repair_rooms s patient newDay rms enc = Inr (r, s') \<Longrightarrow> s' = s"
proof (induction rms arbitrary: s)
  case Nil
  then show ?case by simp
next
  case (Cons room rest)
  show ?case
  proof (cases "room_ident room \<in> set (incompatible_room_ids patient)")
    case True
    with Cons.prems have "repair_rooms s patient newDay rest enc = Inr (r, s')" by simp
    from Cons.IH [OF Cons.prems(1,2) this] show ?thesis .
  next
    case False
    from repair_rooms_step [OF False Cons.prems(3)]
    obtain ok s1 where c: "checkAll s patient newDay (room_ident room) = Inr (ok, s1)"
      and r: "if ok then r = (True, enc\<lparr>admission_day := newDay, room_id := room_ident room\<rparr>) \<and> s' = s1
              else repair_rooms s1 patient newDay rest enc = Inr (r, s')"
      by blast
    from checkAll_listed [OF Cons.prems(1,2) c] have s1: "s1 = s" .
    show ?thesis
    proof (cases ok)
      case True
      with r s1 show ?thesis by simp
    next
      case False
      with r s1 have "repair_rooms s patient newDay rest enc = Inr (r, s')" by simp
      from Cons.IH [OF Cons.prems(1,2) this] show ?thesis .
    qed
  qed
qed

lemma repair_days_step:
  assumes "repair_days s patient (newDay # ds) enc = Inr (r, s')"
  shows "\<exists>found enc1 s1. repair_rooms s patient newDay (rooms (problem s)) enc = Inr ((found, enc1), s1) \<and>
           (if found then r = (True, enc1) \<and> s' = s1
            else repair_days s1 patient ds enc1 = Inr (r, s'))"
proof -
  from assms obtain x where x: "repair_rooms s patient newDay (rooms (problem s)) enc = Inr x"
    by (auto simp: ebind_eq_Inr)
  obtain found enc1 s1 where "x = ((found, enc1), s1)" by (cases x) auto
  with x assms show ?thesis
    by auto
qed

lemma repair_days_result:
  "repair_days s patient ds enc = Inr ((found, enc'), s') \<Longrightarrow>
     problem s' = problem s \<and> originalProblem s' = originalProblem s \<and>
     (\<exists>ts. solution s' = (solution s)\<lparr>theaterStates := ts\<rparr>) \<and>
     patient_id enc' = patient_id enc \<and>
     (if found
      then admission_day enc' \<in> set ds \<and> room_id enc' \<in> set (map room_ident (rooms (problem s))) \<and>
           room_id enc' \<notin> set (incompatible_room_ids patient) \<and>
           checkAll s' patient (admission_day enc') (room_id enc') = Inr (True, s')
      else enc' = enc)"
proof (induction ds arbitrary: s)
  case Nil
  then show ?case by (auto intro: exI [of _ "theaterStates (solution s)"])
next
  case (Cons newDay ds)
  from repair_days_step [OF Cons.prems]
  obtain fnd enc1 s1 where a: "repair_rooms s patient newDay (rooms (problem s)) enc = Inr ((fnd, enc1), s1)"
    and r: "if fnd then (found, enc') = (True, enc1) \<and> s' = s1
            else repair_days s1 patient ds enc1 = Inr ((found, enc'), s')"
    by blast
  note f = repair_rooms_result [OF a]
  show ?case
  proof (cases fnd)
    case True
    with r f show ?thesis by simp
  next
    case False
    with r have d: "repair_days s1 patient ds enc1 = Inr ((found, enc'), s')" by simp
    from False f have e: "enc1 = enc" "problem s1 = problem s" by simp_all
    from d e have d': "repair_days s1 patient ds enc = Inr ((found, enc'), s')" by simp
    from Cons.IH [OF d'] f False show ?thesis
      by (auto split: if_splits)
  qed
qed

lemma repair_days_listed:
  "availability_listed s \<Longrightarrow> \<forall>d\<in>set ds. d < days (problem s) \<Longrightarrow>
   repair_days s patient ds enc = Inr (r, s') \<Longrightarrow> s' = s"
proof (induction ds arbitrary: s enc)
  case Nil
  then show ?case by simp
next
  case (Cons newDay ds)
  from repair_days_step [OF Cons.prems(3)]
  obtain fnd enc1 s1 where a: "repair_rooms s patient newDay (rooms (problem s)) enc = Inr ((fnd, enc1), s1)"
    and r: "if fnd then r = (True, enc1) \<and> s' = s1
            else repair_days s1 patient ds enc1 = Inr (r, s')"
    by blast
  from Cons.prems(2) have "newDay < days (problem s)" by simp
  from repair_rooms_listed [OF Cons.prems(1) this a] have s1: "s1 = s" .
  show ?case
  proof (cases fnd)
    case True
    with r s1 show ?thesis by simp
  next
    case False
    with r s1 have "repair_days s patient ds enc1 = Inr (r, s')" by simp
    from Cons.IH [OF Cons.prems(1) _ this] Cons.prems(2) show ?thesis by simp
  qed
qed

section \<open>One pass as a search through the candidates\<close>

lemma ebind_cong:
  "(\<And>x. m = Inr x \<Longrightarrow> f x = g x) \<Longrightarrow> ebind m f = ebind m g"
  by (cases m) simp_all

lemma repair_rooms_first_feasible:
  "repair_rooms s patient newDay rms enc =
     first_feasible s patient enc
       (map (\<lambda>room. (newDay, room_ident room))
          (filter (\<lambda>room. room_ident room \<notin> set (incompatible_room_ids patient)) rms))"
proof (induction rms arbitrary: s)
  case Nil
  show ?case by simp
next
  case (Cons room rest)
  show ?case
  proof (cases "room_ident room \<in> set (incompatible_room_ids patient)")
    case True
    then show ?thesis by (simp add: Cons.IH)
  next
    case False
    then show ?thesis
      by (auto simp: Let_def Cons.IH intro!: ebind_cong)
  qed
qed

lemma first_feasible_frame:
  "first_feasible s patient enc cs = Inr ((found, enc'), s') \<Longrightarrow>
     problem s' = problem s \<and> (\<not> found \<longrightarrow> enc' = enc)"
proof (induction cs arbitrary: s)
  case Nil
  then show ?case by simp
next
  case (Cons c cs)
  obtain day rid where c: "c = (day, rid)" by (cases c)
  from Cons.prems c obtain ok s1 where a: "checkAll s patient day rid = Inr (ok, s1)"
    by (auto simp: ebind_eq_Inr)
  note f = checkAll_frame [OF a]
  show ?case
  proof (cases ok)
    case True
    with Cons.prems c a f show ?thesis by auto
  next
    case False
    with Cons.prems c a have "first_feasible s1 patient enc cs = Inr ((found, enc'), s')" by simp
    from Cons.IH [OF this] f show ?thesis by simp
  qed
qed

lemma first_feasible_append:
  "first_feasible s patient enc (xs @ ys) =
     ebind (first_feasible s patient enc xs)
       (\<lambda>((found, enc'), s'). if found then Inr ((True, enc'), s')
                               else first_feasible s' patient enc' ys)"
proof (induction xs arbitrary: s)
  case Nil
  show ?case by simp
next
  case (Cons c xs)
  obtain day rid where c: "c = (day, rid)" by (cases c)
  show ?case
  proof (cases "checkAll s patient day rid")
    case (Inl e)
    with c show ?thesis by simp
  next
    case (Inr x)
    obtain ok s1 where "x = (ok, s1)" by (cases x)
    with Inr c Cons.IH [of s1] show ?thesis by simp
  qed
qed

lemma repair_days_first_feasible:
  "repair_days s patient ds enc =
     first_feasible s patient enc (List.product ds (compatible_rooms s patient))"
proof (induction ds arbitrary: s enc)
  case Nil
  show ?case by simp
next
  case (Cons newDay ds)
  let ?cs = "map (\<lambda>room. (newDay, room_ident room))
               (filter (\<lambda>room. room_ident room \<notin> set (incompatible_room_ids patient)) (rooms (problem s)))"
  have p: "List.product (newDay # ds) (compatible_rooms s patient) =
             ?cs @ List.product ds (compatible_rooms s patient)"
    by (simp add: compatible_rooms_def comp_def)
  have "repair_days s patient (newDay # ds) enc =
          ebind (first_feasible s patient enc ?cs)
            (\<lambda>((found, enc'), s'). if found then Inr ((True, enc'), s') else repair_days s' patient ds enc')"
    by (simp add: repair_rooms_first_feasible)
  also have "\<dots> = ebind (first_feasible s patient enc ?cs)
            (\<lambda>((found, enc'), s'). if found then Inr ((True, enc'), s')
                else first_feasible s' patient enc' (List.product ds (compatible_rooms s patient)))"
  proof (rule ebind_cong)
    fix x
    assume x: "first_feasible s patient enc ?cs = Inr x"
    obtain found enc1 s1 where x': "x = ((found, enc1), s1)" by (cases x) auto
    from first_feasible_frame [of s patient enc ?cs found enc1 s1] x x'
    have "problem s1 = problem s" by simp
    then have "compatible_rooms s1 patient = compatible_rooms s patient"
      by (simp add: compatible_rooms_def)
    with Cons.IH [of s1 enc1]
    have "repair_days s1 patient ds enc1 =
            first_feasible s1 patient enc1 (List.product ds (compatible_rooms s patient))"
      by simp
    with x' show "(case x of (x, xa) \<Rightarrow> (case x of (found, enc') \<Rightarrow> \<lambda>s'. if found then Inr ((True, enc'), s')
                   else repair_days s' patient ds enc') xa) =
         (case x of (x, xa) \<Rightarrow> (case x of (found, enc') \<Rightarrow> \<lambda>s'. if found then Inr ((True, enc'), s')
                else first_feasible s' patient enc' (List.product ds (compatible_rooms s patient))) xa)"
      by simp
  qed
  also have "\<dots> = first_feasible s patient enc (?cs @ List.product ds (compatible_rooms s patient))"
    by (simp add: first_feasible_append)
  finally show ?case by (simp only: p)
qed

text \<open>
  C2. When \<^verbatim>\<open>repairMandatoryPatient\<close> returns success, running the three checks again
  with the admission day and the room of the mutated entry, in the solver as the repair
  left it, gives true three times: the surgeon check, the theater check (which also
  leaves the solver as it is) and the room check.
\<close>

theorem repairMandatoryPatient_sound:
  assumes "repairMandatoryPatient s patient enc = Inr ((True, enc'), s')"
  shows "checkSurgeonAvailability s' patient (admission_day enc') = Inr True \<and>
         checkOperatingTheaterAvailability s' patient (admission_day enc') = (True, s') \<and>
         checkRoomAvailability s' patient (admission_day enc') (room_id enc') = Inr True"
proof -
  from assms repair_days_result [of s patient _ enc True enc' s']
  have "checkAll s' patient (admission_day enc') (room_id enc') = Inr (True, s')"
    by (simp add: repairMandatoryPatient_def)
  from checkAll_sound [OF this] show ?thesis .
qed

theorem repairMandatoryPatient_sound_witness:
  "repairMandatoryPatient W_initial W_mandatory W_entry = Inr ((True, W_entry\<lparr>admission_day := 1\<rparr>), W_initial) \<and>
   checkSurgeonAvailability W_initial W_mandatory 1 = Inr True \<and>
   checkOperatingTheaterAvailability W_initial W_mandatory 1 = (True, W_initial) \<and>
   checkRoomAvailability W_initial W_mandatory 1 ''r1'' = Inr True"
proof -
  have r: "repairMandatoryPatient W_initial W_mandatory W_entry = Inr ((True, W_entry\<lparr>admission_day := 1\<rparr>), W_initial)"
    by code_simp
  from repairMandatoryPatient_sound [OF r] r show ?thesis
    by (simp add: W_entry_def)
qed

section \<open>Repeating a failed pass\<close>

lemma table_extends_refl [simp]: "table_extends m m"
  by (simp add: table_extends_def)

lemma table_extends_trans: "table_extends a b \<Longrightarrow> table_extends b c \<Longrightarrow> table_extends a c"
  by (simp add: table_extends_def)

lemma table_extends_subscript [simp]: "table_extends m (subscript m d 0)"
proof -
  have "\<forall>d'. map_of m d' \<noteq> None \<longrightarrow> map_of (subscript m d 0) d' \<noteq> None"
    by (cases "map_of m d") (auto simp: subscript_def)
  then show ?thesis
    unfolding table_extends_def using value_at_subscript [of m d 0] by blast
qed

lemma subscript_key [simp]: "map_of (subscript m d x) d \<noteq> None"
  by (cases "map_of m d") (auto simp: subscript_def)

lemma theater_extends_refl [simp]: "theater_extends t t"
  by (simp add: theater_extends_def)

lemma theater_extends_trans: "theater_extends a b \<Longrightarrow> theater_extends b c \<Longrightarrow> theater_extends a c"
  using table_extends_trans by (auto simp: theater_extends_def)

lemma theater_extends_touch [simp]: "theater_extends t (touch_availability t d)"
  by (simp add: theater_extends_def touch_availability_def)

lemma theaters_extend_refl [simp]: "list_all2 theater_extends ts ts"
  by (simp add: list_all2_refl)

lemma theaters_extend_trans:
  "list_all2 theater_extends a b \<Longrightarrow> list_all2 theater_extends b c \<Longrightarrow> list_all2 theater_extends a c"
  by (rule list_all2_trans [of theater_extends theater_extends theater_extends])
     (auto intro: theater_extends_trans)

lemma touched_from_refl [simp]: "touched_from s s"
  unfolding touched_from_def
  by (intro conjI exI [of _ "theaterStates (solution s)"]) simp_all

lemma touched_from_trans:
  assumes "touched_from a b" "touched_from b c"
  shows "touched_from a c"
proof -
  from assms(1) obtain tb where b: "problem b = problem a" "originalProblem b = originalProblem a"
    "solution b = (solution a)\<lparr>theaterStates := tb\<rparr>" "list_all2 theater_extends (theaterStates (solution a)) tb"
    by (auto simp: touched_from_def)
  from assms(2) obtain tc where c: "problem c = problem b" "originalProblem c = originalProblem b"
    "solution c = (solution b)\<lparr>theaterStates := tc\<rparr>" "list_all2 theater_extends (theaterStates (solution b)) tc"
    by (auto simp: touched_from_def)
  from b(3) c(4) have "list_all2 theater_extends tb tc" by simp
  with b(4) have "list_all2 theater_extends (theaterStates (solution a)) tc"
    by (rule theaters_extend_trans)
  moreover from b(3) c(3) have "solution c = (solution a)\<lparr>theaterStates := tc\<rparr>" by simp
  ultimately show ?thesis using b c unfolding touched_from_def by auto
qed

lemma checkTheaters_extends:
  "checkTheaters ts patient day = (b, ts') \<Longrightarrow> list_all2 theater_extends ts ts'"
proof (induction ts arbitrary: b ts')
  case Nil
  then show ?case by simp
next
  case (Cons t ts)
  obtain c us where r: "checkTheaters ts patient day = (c, us)" by (cases "checkTheaters ts patient day")
  from Cons.IH [OF r] r Cons.prems show ?case
    by (auto split: if_splits)
qed

lemma theater_extends_touched:
  assumes "theater_extends (touch_availability t day) t1"
  shows "touch_availability t1 day = t1" and "avail t1 day = avail t day"
proof -
  have "map_of (availability_per_day (touch_availability t day)) day \<noteq> None"
    unfolding touch_availability_def using subscript_key [of "availability_per_day t" day 0] by simp
  with assms have "map_of (availability_per_day t1) day \<noteq> None"
    unfolding theater_extends_def table_extends_def by blast
  then show "touch_availability t1 day = t1" by (rule touch_present)
  from assms have "value_at (availability_per_day t1) day 0 =
                   value_at (availability_per_day (touch_availability t day)) day 0"
    by (simp add: theater_extends_def table_extends_def)
  then show "avail t1 day = avail t day"
    by (simp add: avail_def touch_availability_def)
qed

lemma checkTheaters_again:
  "checkTheaters ts patient day = (b, ts') \<Longrightarrow> list_all2 theater_extends ts' ts1 \<Longrightarrow>
   checkTheaters ts1 patient day = (b, ts1)"
proof (induction ts arbitrary: b ts' ts1)
  case Nil
  then show ?case by simp
next
  case (Cons t ts)
  obtain c us where r: "checkTheaters ts patient day = (c, us)" by (cases "checkTheaters ts patient day")
  show ?case
  proof (cases "avail t day \<ge> surgery_duration patient")
    case True
    with Cons.prems(1) have e: "b" "ts' = touch_availability t day # ts" by auto
    with Cons.prems(2) obtain t1 r1 where t1: "ts1 = t1 # r1" "theater_extends (touch_availability t day) t1"
      by (auto simp: list_all2_Cons1)
    from theater_extends_touched [OF t1(2)] True e t1(1) show ?thesis by simp
  next
    case False
    with Cons.prems(1) r have e: "b = c" "ts' = touch_availability t day # us" by auto
    with Cons.prems(2) obtain t1 r1 where t1: "ts1 = t1 # r1" "theater_extends (touch_availability t day) t1"
      "list_all2 theater_extends us r1"
      by (auto simp: list_all2_Cons1)
    from Cons.IH [OF r t1(3)] have "checkTheaters r1 patient day = (c, r1)" .
    with theater_extends_touched [OF t1(2)] False e t1(1) show ?thesis by simp
  qed
qed

lemma checkOperatingTheaterAvailability_touched:
  "checkOperatingTheaterAvailability s patient day = (b, s') \<Longrightarrow> touched_from s s'"
proof -
  assume a: "checkOperatingTheaterAvailability s patient day = (b, s')"
  obtain c ts where r: "checkTheaters (theaterStates (solution s)) patient day = (c, ts)"
    by (cases "checkTheaters (theaterStates (solution s)) patient day")
  from checkTheaters_extends [OF r] r a show ?thesis
    unfolding touched_from_def checkOperatingTheaterAvailability_def
    by (intro conjI exI [of _ ts]) auto
qed

lemma checkOperatingTheaterAvailability_again:
  assumes "checkOperatingTheaterAvailability s patient day = (b, s')" "touched_from s' s1"
  shows "checkOperatingTheaterAvailability s1 patient day = (b, s1)"
proof -
  obtain c ts where r: "checkTheaters (theaterStates (solution s)) patient day = (c, ts)"
    by (cases "checkTheaters (theaterStates (solution s)) patient day")
  with assms(1) have e: "b = c" "s' = s\<lparr>solution := (solution s)\<lparr>theaterStates := ts\<rparr>\<rparr>"
    by (auto simp: checkOperatingTheaterAvailability_def)
  from assms(2) e(2) have "list_all2 theater_extends ts (theaterStates (solution s1))"
    by (auto simp: touched_from_def)
  from checkTheaters_again [OF r this] e(1) show ?thesis
    by (simp add: checkOperatingTheaterAvailability_def)
qed

lemma touched_from_checks:
  assumes "touched_from s s1"
  shows "checkSurgeonAvailability s1 patient day = checkSurgeonAvailability s patient day"
    and "checkRoomAvailability s1 patient day rid = checkRoomAvailability s patient day rid"
proof -
  from assms have p: "problem s1 = problem s" and r: "roomStates (solution s1) = roomStates (solution s)"
    by (auto simp: touched_from_def)
  from p show "checkSurgeonAvailability s1 patient day = checkSurgeonAvailability s patient day"
    by (rule checkSurgeonAvailability_cong)
  from p r show "checkRoomAvailability s1 patient day rid = checkRoomAvailability s patient day rid"
    by (rule checkRoomAvailability_cong)
qed

lemma checkAll_touched:
  assumes "checkAll s patient day rid = Inr (b, s')"
  shows "touched_from s s'"
  using checkAll_cases [OF assms] checkOperatingTheaterAvailability_touched touched_from_refl
  by metis

lemma checkAll_again:
  assumes "checkAll s patient day rid = Inr (b, s')" "touched_from s' s1"
  shows "checkAll s1 patient day rid = Inr (b, s1)"
proof -
  from checkAll_touched [OF assms(1)] assms(2) have t: "touched_from s s1"
    by (rule touched_from_trans)
  note sg = touched_from_checks(1) [OF t, of patient day]
  note rm = touched_from_checks(2) [OF assms(2), of patient day rid]
  from checkAll_cases [OF assms(1)] show ?thesis
  proof (elim disjE conjE)
    assume "checkSurgeonAvailability s patient day = Inr False" "\<not> b"
    with sg show ?thesis by (simp add: checkAll_def)
  next
    assume a: "checkSurgeonAvailability s patient day = Inr True"
      "checkOperatingTheaterAvailability s patient day = (False, s')" "\<not> b"
    from checkOperatingTheaterAvailability_again [OF a(2) assms(2)] a(1,3) sg
    show ?thesis by (simp add: checkAll_def)
  next
    assume a: "checkSurgeonAvailability s patient day = Inr True"
      "checkOperatingTheaterAvailability s patient day = (True, s')"
      "checkRoomAvailability s' patient day rid = Inr b"
    from checkOperatingTheaterAvailability_again [OF a(2) assms(2)] a(1,3) sg rm
    show ?thesis by (simp add: checkAll_def)
  qed
qed

lemma first_feasible_touched:
  "first_feasible s patient enc cs = Inr (r, s') \<Longrightarrow> touched_from s s'"
proof (induction cs arbitrary: s)
  case Nil
  then show ?case by simp
next
  case (Cons c cs)
  obtain day rid where c: "c = (day, rid)" by (cases c)
  from Cons.prems c obtain ok s1 where a: "checkAll s patient day rid = Inr (ok, s1)"
    by (auto simp: ebind_eq_Inr)
  note t = checkAll_touched [OF a]
  show ?case
  proof (cases ok)
    case True
    with Cons.prems c a t show ?thesis by auto
  next
    case False
    with Cons.prems c a have "first_feasible s1 patient enc cs = Inr (r, s')" by simp
    from Cons.IH [OF this] t show ?thesis by (rule touched_from_trans [rotated])
  qed
qed

lemma first_feasible_again:
  "first_feasible s patient enc cs = Inr ((False, enc'), s') \<Longrightarrow> touched_from s' s1 \<Longrightarrow>
   first_feasible s1 patient enc cs = Inr ((False, enc), s1)"
proof (induction cs arbitrary: s)
  case Nil
  then show ?case by simp
next
  case (Cons c cs)
  obtain day rid where c: "c = (day, rid)" by (cases c)
  from Cons.prems(1) c obtain ok s2 where a: "checkAll s patient day rid = Inr (ok, s2)"
    by (auto simp: ebind_eq_Inr)
  from Cons.prems(1) c a have ok: "\<not> ok" by (auto split: if_splits)
  with Cons.prems(1) c a have r: "first_feasible s2 patient enc cs = Inr ((False, enc'), s')" by simp
  from first_feasible_touched [OF r] Cons.prems(2) have "touched_from s2 s1"
    by (rule touched_from_trans)
  from checkAll_again [OF a this] ok have "checkAll s1 patient day rid = Inr (False, s1)" by simp
  with Cons.IH [OF r Cons.prems(2)] c show ?case by simp
qed

lemma candidates_touched: "touched_from s s1 \<Longrightarrow> candidates s1 patient = candidates s patient"
  by (simp add: touched_from_def candidates_def compatible_rooms_def)

lemma repair_pass_candidates:
  "repair_days s patient (day_range (surgery_release_day patient) (days (problem s))) enc =
     first_feasible s patient enc (candidates s patient)"
  by (simp add: repair_days_first_feasible candidates_def)

lemma repair_attempts_failed:
  "first_feasible s patient enc (candidates s patient) = Inr ((False, enc), s) \<Longrightarrow>
   repair_attempts n s patient enc = Inr ((False, enc), s)"
  by (induction n) (simp_all add: repair_pass_candidates)

lemma repair_attempts_single:
  "repair_attempts (Suc n) s patient enc = first_feasible s patient enc (candidates s patient)"
proof (cases "first_feasible s patient enc (candidates s patient)")
  case (Inl e)
  then show ?thesis by (simp add: repair_pass_candidates)
next
  case (Inr x)
  obtain found enc' s' where x: "x = ((found, enc'), s')" by (cases x) auto
  show ?thesis
  proof (cases found)
    case True
    with Inr x show ?thesis by (simp add: repair_pass_candidates)
  next
    case False
    from Inr x False have r: "first_feasible s patient enc (candidates s patient) = Inr ((False, enc'), s')"
      by simp
    from first_feasible_frame [OF r] have e: "enc' = enc" by simp
    from first_feasible_touched [OF r] have t: "touched_from s s'" .
    from first_feasible_again [OF r touched_from_refl] candidates_touched [OF t]
    have "first_feasible s' patient enc (candidates s' patient) = Inr ((False, enc), s')" by simp
    from repair_attempts_failed [OF this] r e show ?thesis
      by (simp add: repair_pass_candidates)
  qed
qed

text \<open>
  C9. \<^verbatim>\<open>repairOptionalPatient\<close> with its five attempts is the single exhaustive pass over
  the days from the release day to the end of the horizon crossed with the compatible
  rooms: both give the same fault, or the same flag, the same encoded entry and the same
  solver. A pass that fails leaves the entry as it was and changes the solver at most by
  entries that the theater check stored for days it had already read, so every further
  attempt repeats the first.
\<close>

theorem repairOptionalPatient_single_pass:
  "repairOptionalPatient s patient enc = singleExhaustivePass s patient enc"
  by (simp add: repairOptionalPatient_def singleExhaustivePass_def MAX_ATTEMPTS_def
      repair_attempts_single [of 4, simplified] del: repair_attempts.simps)

text \<open>
  C8. In a solver whose theaters list every day of the horizon in their availability
  table (the initializer builds them so, and every step of the decoding keeps them so),
  both repair routines return the solver they were given: surgeons' budgets, theater
  tables and patient lists, room capacities, patient lists and occupant lists are what
  they were. The encoded entry keeps its patient identifier, and it is unchanged when
  the repair fails.
\<close>

theorem repair_leaves_pools:
  assumes "availability_listed s"
  shows "(repairMandatoryPatient s patient enc = Inr ((found, enc'), s') \<longrightarrow>
            s' = s \<and> patient_id enc' = patient_id enc \<and> (\<not> found \<longrightarrow> enc' = enc)) \<and>
         (repairOptionalPatient s patient enc = Inr ((found, enc'), s') \<longrightarrow>
            s' = s \<and> patient_id enc' = patient_id enc \<and> (\<not> found \<longrightarrow> enc' = enc))"
proof (intro conjI impI)
  assume a: "repairMandatoryPatient s patient enc = Inr ((found, enc'), s')"
  then have d: "repair_days s patient (day_range (surgery_release_day patient)
                  (min (surgery_due_day patient + 1) (days (problem s)))) enc = Inr ((found, enc'), s')"
    by (simp add: repairMandatoryPatient_def)
  from repair_days_listed [OF assms _ d] show "s' = s" by simp
  from repair_days_result [OF d] show "patient_id enc' = patient_id enc" by simp
  from repair_days_result [OF d] show "\<not> found \<Longrightarrow> enc' = enc" by simp
next
  assume a: "repairOptionalPatient s patient enc = Inr ((found, enc'), s')"
  then have d: "repair_days s patient (day_range (surgery_release_day patient) (days (problem s))) enc
                  = Inr ((found, enc'), s')"
    by (simp add: repairOptionalPatient_def MAX_ATTEMPTS_def repair_attempts_single [of 4, simplified]
        repair_pass_candidates del: repair_attempts.simps)
  from repair_days_listed [OF assms _ d] show "s' = s" by simp
  from repair_days_result [OF d] show "patient_id enc' = patient_id enc" by simp
  from repair_days_result [OF d] show "\<not> found \<Longrightarrow> enc' = enc" by simp
qed

theorem repair_leaves_pools_witness:
  "availability_listed W_initial \<and>
   repairMandatoryPatient W_initial W_mandatory W_entry = Inr ((True, W_entry\<lparr>admission_day := 1\<rparr>), W_initial) \<and>
   repairOptionalPatient W_initial (W_optional\<lparr>incompatible_room_ids := [''r1'']\<rparr>) W_entry2
     = Inr ((False, W_entry2), W_initial)"
proof -
  have l: "availability_listed W_initial" by code_simp
  have m: "repairMandatoryPatient W_initial W_mandatory W_entry = Inr ((True, W_entry\<lparr>admission_day := 1\<rparr>), W_initial)"
    by code_simp
  have "\<exists>e s'. repairOptionalPatient W_initial (W_optional\<lparr>incompatible_room_ids := [''r1'']\<rparr>) W_entry2
     = Inr ((False, e), s')"
    by (rule exI [of _ W_entry2], rule exI [of _ W_initial]) code_simp
  then obtain e s' where o: "repairOptionalPatient W_initial (W_optional\<lparr>incompatible_room_ids := [''r1'']\<rparr>) W_entry2
     = Inr ((False, e), s')" by blast
  from repair_leaves_pools [OF l, of "W_optional\<lparr>incompatible_room_ids := [''r1'']\<rparr>" W_entry2 False e s'] o
  have "s' = W_initial" "e = W_entry2" by simp_all
  with l m o show ?thesis by simp
qed

section \<open>The decoding keeps the instance and the listed days\<close>

lemma same_instance_refl [simp]: "same_instance s s"
  unfolding same_instance_def by (intro conjI exI [of _ "surgeons (problem s)"]) simp_all

lemma same_instance_trans: "same_instance a b \<Longrightarrow> same_instance b c \<Longrightarrow> same_instance a c"
  unfolding same_instance_def by (elim conjE exE) (simp, blast)

lemma same_instance_problem: "problem s' = problem s \<Longrightarrow> originalProblem s' = originalProblem s \<Longrightarrow> same_instance s s'"
  unfolding same_instance_def by (intro conjI exI [of _ "surgeons (problem s)"]) simp_all

lemma same_instance_fields:
  assumes "same_instance s s'"
  shows "days (problem s') = days (problem s)" "rooms (problem s') = rooms (problem s)"
    "patients (problem s') = patients (problem s)" "nurses (problem s') = nurses (problem s)"
    "theaters (problem s') = theaters (problem s)" "occupants (problem s') = occupants (problem s)"
    "shift_types (problem s') = shift_types (problem s)" "originalProblem s' = originalProblem s"
  using assms unfolding same_instance_def by auto

lemma availability_listed_iff:
  "availability_listed s \<longleftrightarrow>
     (\<forall>t\<in>set (theaterStates (solution s)). \<forall>d. 0 \<le> d \<and> d < days (problem s) \<longrightarrow>
         map_of (availability_per_day t) d \<noteq> None)"
  by (simp add: availability_listed_def list_all_iff)

text \<open>The initializer lists every day of the horizon.\<close>

lemma init_availability_keys:
  "init_availability av ds m = Inr m' \<Longrightarrow>
   map_of m' d \<noteq> None \<longleftrightarrow> map_of m d \<noteq> None \<or> d \<in> set ds"
proof (induction ds arbitrary: m)
  case Nil
  then show ?case by simp
next
  case (Cons x ds)
  from Cons.prems have r: "init_availability av ds (assign_at m x (av ! nat x)) = Inr m'"
    by (simp split: if_splits)
  from Cons.IH [OF r] show ?case
    by (auto simp: assign_at_def update_conv')
qed

lemma init_theater_keys:
  "init_theater pr theater = Inr t \<Longrightarrow> 0 \<le> d \<Longrightarrow> d < days pr \<Longrightarrow>
   map_of (availability_per_day t) d \<noteq> None"
proof -
  assume a: "init_theater pr theater = Inr t" and d: "0 \<le> d" "d < days pr"
  from a obtain m where m: "init_availability (availability theater) (day_range 0 (days pr)) [] = Inr m"
    and t: "availability_per_day t = m"
    by (auto simp: init_theater_def ebind_eq_Inr)
  from init_availability_keys [OF m, of d] d t show ?thesis by simp
qed

lemma init_theaters_keys:
  "init_theaters pr ths = Inr tss \<Longrightarrow> t \<in> set tss \<Longrightarrow> 0 \<le> d \<Longrightarrow> d < days pr \<Longrightarrow>
   map_of (availability_per_day t) d \<noteq> None"
proof (induction ths arbitrary: tss)
  case Nil
  then show ?case by simp
next
  case (Cons th ths)
  from Cons.prems(1) obtain t0 ts where r: "init_theater pr th = Inr t0" "init_theaters pr ths = Inr ts"
    "tss = t0 # ts"
    by (auto simp: ebind_eq_Inr)
  with Cons.prems(2) have "t = t0 \<or> t \<in> set ts" by simp
  then show ?case
  proof
    assume "t = t0"
    with init_theater_keys [OF r(1) Cons.prems(3,4)] show ?thesis by simp
  next
    assume "t \<in> set ts"
    from Cons.IH [OF r(2) this Cons.prems(3,4)] show ?thesis .
  qed
qed

lemma initializeDynamicStates_result:
  assumes "initializeDynamicStates s = Inr s'"
  shows "availability_listed s'" and "same_instance s s'"
    and "sol_patients (solution s') = []" and "sol_nurses (solution s') = []"
proof -
  let ?prob = "(problem s)\<lparr>surgeons := surgeons (originalProblem s)\<rparr>"
  from assms obtain tss where t: "init_theaters ?prob (theaters ?prob) = Inr tss"
    and s': "s' = s\<lparr>problem := ?prob,
                   solution := \<lparr>roomStates = map (init_room ?prob) (rooms ?prob),
                                theaterStates = tss, sol_patients = [], sol_nurses = [],
                                soft_constraints = [], total_soft_constraints = 0\<rparr>\<rparr>"
    by (auto simp: initializeDynamicStates_def Let_def ebind_eq_Inr)
  from s' show "same_instance s s'"
    unfolding same_instance_def by (intro conjI exI [of _ "surgeons (originalProblem s)"]) simp_all
  from s' show "sol_patients (solution s') = []" "sol_nurses (solution s') = []" by simp_all
  from s' have "theaterStates (solution s') = tss" "days (problem s') = days ?prob" by simp_all
  with init_theaters_keys [OF t] show "availability_listed s'"
    unfolding availability_listed_iff by auto
qed

text \<open>Every later step keeps the instance and the listed days.\<close>

lemma touched_from_listed:
  assumes "touched_from s s'" "availability_listed s"
  shows "availability_listed s'"
proof -
  from assms(1) obtain ts where ts: "problem s' = problem s" "theaterStates (solution s') = ts"
    "list_all2 theater_extends (theaterStates (solution s)) ts"
    by (auto simp: touched_from_def)
  have "\<forall>d. 0 \<le> d \<and> d < days (problem s) \<longrightarrow> map_of (availability_per_day t') d \<noteq> None"
    if "t' \<in> set ts" for t'
  proof -
    from that obtain i where i: "i < length ts" "t' = ts ! i"
      by (auto simp: in_set_conv_nth)
    from ts(3) i have "i < length (theaterStates (solution s))"
      "theater_extends (theaterStates (solution s) ! i) t'"
      by (simp_all add: list_all2_conv_all_nth)
    then obtain t where t: "t \<in> set (theaterStates (solution s))" "theater_extends t t'"
      using nth_mem by blast
    with assms(2) show ?thesis
      unfolding availability_listed_iff theater_extends_def table_extends_def by blast
  qed
  with ts show ?thesis unfolding availability_listed_iff by simp
qed

lemma touched_from_same_instance: "touched_from s s' \<Longrightarrow> same_instance s s'"
  by (simp add: touched_from_def same_instance_problem)

lemma assignSurgeon_result:
  assumes "assignSurgeon s patient day = Inr s'"
  shows "solution s' = solution s" and "same_instance s s'"
proof -
  from assms obtain sg where "s' = s\<lparr>problem := (problem s)\<lparr>surgeons := sg\<rparr>\<rparr>"
    by (auto simp: assignSurgeon_def split: option.splits if_splits)
  then show "solution s' = solution s" and "same_instance s s'"
    unfolding same_instance_def by auto
qed

lemma book_theater_keys:
  "map_of (availability_per_day t) d \<noteq> None \<Longrightarrow>
   map_of (availability_per_day (book_theater (touch_availability t day) patient day)) d \<noteq> None"
proof -
  assume "map_of (availability_per_day t) d \<noteq> None"
  then have "map_of (subscript (availability_per_day t) day 0) d \<noteq> None"
    using table_extends_subscript [of "availability_per_day t" day] unfolding table_extends_def by blast
  then show ?thesis
    by (simp add: book_theater_def touch_availability_def assign_at_def update_conv')
qed

lemma touch_keys:
  "map_of (availability_per_day t) d \<noteq> None \<Longrightarrow>
   map_of (availability_per_day (touch_availability t day)) d \<noteq> None"
  using table_extends_subscript [of "availability_per_day t" day]
  unfolding table_extends_def touch_availability_def by simp

lemma chooseTheater_bound:
  assumes "chooseTheater tss patient day = Some k"
  shows "k < length tss"
proof (cases "\<exists>i. fits tss patient day i \<and> is_open (tss ! i) day")
  case True
  from chooseTheater_open [OF True] assms show ?thesis by (auto simp: fits_def)
next
  case False
  show ?thesis
  proof (cases "\<exists>i. fits tss patient day i")
    case True
    from chooseTheater_closed [OF False True] assms show ?thesis by (auto simp: fits_def)
  next
    case False
    from chooseTheater_none [OF False] assms show ?thesis by simp
  qed
qed

lemma assignOperatingTheater_result:
  assumes "assignOperatingTheater s patient day = Inr (tid, s')"
  shows "problem s' = problem s" "originalProblem s' = originalProblem s"
    "\<exists>ts. solution s' = (solution s)\<lparr>theaterStates := ts\<rparr>"
    "availability_listed s \<Longrightarrow> availability_listed s'"
proof -
  let ?tss = "map (\<lambda>t. touch_availability t day) (theaterStates (solution s))"
  from assms obtain k where k: "chooseTheater ?tss patient day = Some k"
    and s': "s' = s\<lparr>solution := (solution s)\<lparr>theaterStates := ?tss[k := book_theater (?tss ! k) patient day]\<rparr>\<rparr>"
    by (auto simp: assignOperatingTheater_def Let_def split: option.splits)
  from s' show "problem s' = problem s" "originalProblem s' = originalProblem s"
    "\<exists>ts. solution s' = (solution s)\<lparr>theaterStates := ts\<rparr>" by auto
  assume l: "availability_listed s"
  have kk: "k < length (theaterStates (solution s))"
  proof -
    from chooseTheater_bound [OF k] show ?thesis by simp
  qed
  have "\<forall>d. 0 \<le> d \<and> d < days (problem s) \<longrightarrow> map_of (availability_per_day t') d \<noteq> None"
    if "t' \<in> set (?tss[k := book_theater (?tss ! k) patient day])" for t'
  proof -
    from that have "t' = book_theater (?tss ! k) patient day \<or> t' \<in> set ?tss"
      using set_update_subset_insert by fastforce
    then show ?thesis
    proof
      assume "t' = book_theater (?tss ! k) patient day"
      with kk have "t' = book_theater (touch_availability (theaterStates (solution s) ! k) day) patient day"
        by simp
      moreover from kk have "theaterStates (solution s) ! k \<in> set (theaterStates (solution s))" by simp
      ultimately show ?thesis using l book_theater_keys unfolding availability_listed_iff by blast
    next
      assume "t' \<in> set ?tss"
      then obtain t where "t \<in> set (theaterStates (solution s))" "t' = touch_availability t day" by auto
      then show ?thesis using l touch_keys unfolding availability_listed_iff by blast
    qed
  qed
  with s' show "availability_listed s'" unfolding availability_listed_iff by simp
qed

lemma assignRoom_result:
  assumes "assignRoom s patient day rid = Inr s'"
  shows "problem s' = problem s" "originalProblem s' = originalProblem s"
    "\<exists>rs. solution s' = (solution s)\<lparr>roomStates := rs\<rparr>"
proof -
  from assms obtain rs where "s' = s\<lparr>solution := (solution s)\<lparr>roomStates := rs\<rparr>\<rparr>"
    by (auto simp: assignRoom_def ebind_eq_Inr split: option.splits)
  then show "problem s' = problem s" "originalProblem s' = originalProblem s"
    "\<exists>rs. solution s' = (solution s)\<lparr>roomStates := rs\<rparr>" by auto
qed

section \<open>The decoding loops\<close>

lemma decode_step_refl [simp]: "decode_step s s"
  by (simp add: decode_step_def)

lemma decode_step_trans: "decode_step a b \<Longrightarrow> decode_step b c \<Longrightarrow> decode_step a c"
  unfolding decode_step_def using same_instance_trans by auto

lemma first_feasible_patient_id:
  "first_feasible s patient enc cs = Inr ((found, enc'), s') \<Longrightarrow> patient_id enc' = patient_id enc"
proof (induction cs arbitrary: s)
  case Nil
  then show ?case by simp
next
  case (Cons c cs)
  obtain day rid where c: "c = (day, rid)" by (cases c)
  from Cons.prems c obtain ok s1 where a: "checkAll s patient day rid = Inr (ok, s1)"
    by (auto simp: ebind_eq_Inr)
  show ?case
  proof (cases ok)
    case True
    with Cons.prems c a show ?thesis by auto
  next
    case False
    with Cons.prems c a have "first_feasible s1 patient enc cs = Inr ((found, enc'), s')" by simp
    from Cons.IH [OF this] show ?thesis .
  qed
qed

lemma repairMandatoryPatient_contract: "repair_contract repairMandatoryPatient"
  unfolding repair_contract_def repairMandatoryPatient_def repair_days_first_feasible
  using first_feasible_touched first_feasible_patient_id by blast

lemma repairOptionalPatient_contract: "repair_contract repairOptionalPatient"
proof -
  have "repairOptionalPatient s p e = first_feasible s p e (candidates s p)" for s p e
    by (simp add: repairOptionalPatient_def MAX_ATTEMPTS_def repair_attempts_single [of 4, simplified]
        del: repair_attempts.simps)
  then show ?thesis
    unfolding repair_contract_def
    using first_feasible_touched first_feasible_patient_id by metis
qed

lemma touched_from_step:
  assumes "touched_from s s'"
  shows "decode_step s s'"
proof -
  from assms have "sol_nurses (solution s') = sol_nurses (solution s)"
    by (auto simp: touched_from_def)
  with touched_from_same_instance [OF assms] touched_from_listed [OF assms] show ?thesis
    by (simp add: decode_step_def)
qed

lemma touched_from_patients: "touched_from s s' \<Longrightarrow> sol_patients (solution s') = sol_patients (solution s)"
  by (auto simp: touched_from_def)

lemma commitPlacement_result:
  assumes "commitPlacement s patient day rid = Inr s'"
  shows "decode_step s s'"
    and "\<exists>tid. sol_patients (solution s') = sol_patients (solution s) @
            [\<lparr>pa_id = pat_id patient, pa_admission_day = Some day, pa_room = Some rid,
              pa_operating_theater = Some tid\<rparr>]"
proof -
  from assms obtain s1 tid s2 s3 where
    a: "assignSurgeon s patient day = Inr s1"
    and b: "assignOperatingTheater s1 patient day = Inr (tid, s2)"
    and c: "assignRoom s2 patient day rid = Inr s3"
    and d: "s' = s3\<lparr>solution := (solution s3)\<lparr>sol_patients := sol_patients (solution s3) @
              [\<lparr>pa_id = pat_id patient, pa_admission_day = Some day, pa_room = Some rid,
                pa_operating_theater = Some tid\<rparr>]\<rparr>\<rparr>"
    by (auto simp: commitPlacement_def ebind_eq_Inr)
  note ra = assignSurgeon_result [OF a]
  note rb = assignOperatingTheater_result [OF b]
  note rc = assignRoom_result [OF c]
  from rb(1,2) have ib: "same_instance s1 s2" by (rule same_instance_problem)
  from rc(1,2) have ic: "same_instance s2 s3" by (rule same_instance_problem)
  from d have id: "same_instance s3 s'" by (intro same_instance_problem) simp_all
  from ra(2) ib ic id have i: "same_instance s s'"
    using same_instance_trans by blast
  have l: "availability_listed s'" if "availability_listed s"
  proof -
    from that ra have "availability_listed s1"
      unfolding availability_listed_iff using same_instance_fields(1) by simp
    from rb(4) [OF this] have "availability_listed s2" .
    with rc d show ?thesis
      unfolding availability_listed_iff by auto
  qed
  from ra(1) rb(3) rc(3) d have n: "sol_nurses (solution s') = sol_nurses (solution s)" by auto
  from i l n show "decode_step s s'" by (simp add: decode_step_def)
  from ra(1) rb(3) rc(3) d
  have "sol_patients (solution s') = sol_patients (solution s) @
            [\<lparr>pa_id = pat_id patient, pa_admission_day = Some day, pa_room = Some rid,
              pa_operating_theater = Some tid\<rparr>]" by auto
  then show "\<exists>tid. sol_patients (solution s') = sol_patients (solution s) @
            [\<lparr>pa_id = pat_id patient, pa_admission_day = Some day, pa_room = Some rid,
              pa_operating_theater = Some tid\<rparr>]" ..
qed

text \<open>The cases of one iteration of a processing loop.\<close>

lemma placePatient_cases:
  assumes "placePatient r s enc = Inr (enc', s')"
  obtains
    (direct) patient s1 where "find (\<lambda>p. pat_id p = patient_id enc) (patients (problem s)) = Some patient"
      "checkAll s patient (admission_day enc) (room_id enc) = Inr (True, s1)"
      "commitPlacement s1 patient (admission_day enc) (room_id enc) = Inr s'" "enc' = enc"
  | (unplaced) patient s1 s2 where "find (\<lambda>p. pat_id p = patient_id enc) (patients (problem s)) = Some patient"
      "checkAll s patient (admission_day enc) (room_id enc) = Inr (False, s1)"
      "r s1 patient enc = Inr ((False, enc'), s2)"
      "s' = s2\<lparr>solution := (solution s2)\<lparr>sol_patients := sol_patients (solution s2) @
              [\<lparr>pa_id = pat_id patient, pa_admission_day = None, pa_room = None,
                pa_operating_theater = None\<rparr>]\<rparr>\<rparr>"
  | (repaired) patient s1 s2 where "find (\<lambda>p. pat_id p = patient_id enc) (patients (problem s)) = Some patient"
      "checkAll s patient (admission_day enc) (room_id enc) = Inr (False, s1)"
      "r s1 patient enc = Inr ((True, enc'), s2)"
      "commitPlacement s2 patient (admission_day enc') (room_id enc') = Inr s'"
proof -
  from assms obtain patient where p: "find (\<lambda>p. pat_id p = patient_id enc) (patients (problem s)) = Some patient"
    by (auto simp: placePatient_def split: option.splits)
  with assms obtain ok s1 where c: "checkAll s patient (admission_day enc) (room_id enc) = Inr (ok, s1)"
    by (auto simp: placePatient_def ebind_eq_Inr)
  show thesis
  proof (cases ok)
    case True
    with assms p c have d: "commitPlacement s1 patient (admission_day enc) (room_id enc) = Inr s'" "enc' = enc"
      by (auto simp: placePatient_def ebind_eq_Inr)
    from c True have c': "checkAll s patient (admission_day enc) (room_id enc) = Inr (True, s1)" by simp
    show ?thesis by (rule direct [OF p c' d])
  next
    case False
    with assms p c obtain x where x: "r s1 patient enc = Inr x"
      by (auto simp: placePatient_def ebind_eq_Inr)
    from c False have c': "checkAll s patient (admission_day enc) (room_id enc) = Inr (False, s1)" by simp
    obtain rp e2 s2 where x': "x = ((rp, e2), s2)" by (cases x) auto
    show ?thesis
    proof (cases rp)
      case True
      with assms p c False x x' have d: "commitPlacement s2 patient (admission_day e2) (room_id e2) = Inr s'" "enc' = e2"
        by (auto simp: placePatient_def ebind_eq_Inr)
      from x x' True d(2) have x2: "r s1 patient enc = Inr ((True, enc'), s2)" by simp
      from d have d2: "commitPlacement s2 patient (admission_day enc') (room_id enc') = Inr s'" by simp
      show ?thesis by (rule repaired [OF p c' x2 d2])
    next
      case nf: False
      with assms p c False x x' have d: "enc' = e2"
        "s' = s2\<lparr>solution := (solution s2)\<lparr>sol_patients := sol_patients (solution s2) @
              [\<lparr>pa_id = pat_id patient, pa_admission_day = None, pa_room = None,
                pa_operating_theater = None\<rparr>]\<rparr>\<rparr>"
        by (auto simp: placePatient_def)
      from x x' nf d(1) have x2: "r s1 patient enc = Inr ((False, enc'), s2)" by simp
      show ?thesis by (rule unplaced [OF p c' x2 d(2)])
    qed
  qed
qed

lemma find_pat_id: "find (\<lambda>p. pat_id p = i) ps = Some patient \<Longrightarrow> pat_id patient = i \<and> patient \<in> set ps"
  by (auto simp: find_Some_iff)

lemma placePatient_result:
  assumes "repair_contract r" "placePatient r s enc = Inr (enc', s')"
  shows "decode_step s s'" and "patient_id enc' = patient_id enc"
    and "\<exists>pa. sol_patients (solution s') = sol_patients (solution s) @ [pa] \<and> placed_as pa enc'"
  using assms(2)
proof (atomize (full), cases rule: placePatient_cases)
  case (direct patient s1)
  note t = checkAll_touched [OF direct(2)]
  note c = commitPlacement_result [OF direct(3)]
  from touched_from_step [OF t] c(1) have "decode_step s s'" by (rule decode_step_trans)
  moreover from c(2) touched_from_patients [OF t] find_pat_id [OF direct(1)] direct(4)
  have "\<exists>pa. sol_patients (solution s') = sol_patients (solution s) @ [pa] \<and> placed_as pa enc'"
    by (auto simp: placed_as_def)
  ultimately show "decode_step s s' \<and> patient_id enc' = patient_id enc \<and>
    (\<exists>pa. sol_patients (solution s') = sol_patients (solution s) @ [pa] \<and> placed_as pa enc')"
    using direct(4) by simp
next
  case (unplaced patient s1 s2)
  note t = checkAll_touched [OF unplaced(2)]
  from assms(1) unplaced(3) have t2: "touched_from s1 s2" and i: "patient_id enc' = patient_id enc"
    by (auto simp: repair_contract_def)
  from t t2 have t3: "touched_from s s2" by (rule touched_from_trans)
  from unplaced(4) have "decode_step s2 s'"
    unfolding decode_step_def availability_listed_iff
    by (auto intro: same_instance_problem)
  with touched_from_step [OF t3] have "decode_step s s'" by (rule decode_step_trans)
  moreover from unplaced(4) touched_from_patients [OF t3] find_pat_id [OF unplaced(1)] i
  have "\<exists>pa. sol_patients (solution s') = sol_patients (solution s) @ [pa] \<and> placed_as pa enc'"
    by (auto simp: placed_as_def)
  ultimately show "decode_step s s' \<and> patient_id enc' = patient_id enc \<and>
    (\<exists>pa. sol_patients (solution s') = sol_patients (solution s) @ [pa] \<and> placed_as pa enc')"
    using i by simp
next
  case (repaired patient s1 s2)
  note t = checkAll_touched [OF repaired(2)]
  from assms(1) repaired(3) have t2: "touched_from s1 s2" and i: "patient_id enc' = patient_id enc"
    by (auto simp: repair_contract_def)
  from t t2 have t3: "touched_from s s2" by (rule touched_from_trans)
  note c = commitPlacement_result [OF repaired(4)]
  from touched_from_step [OF t3] c(1) have "decode_step s s'" by (rule decode_step_trans)
  moreover from c(2) touched_from_patients [OF t3] find_pat_id [OF repaired(1)] i
  have "\<exists>pa. sol_patients (solution s') = sol_patients (solution s) @ [pa] \<and> placed_as pa enc'"
    by (auto simp: placed_as_def)
  ultimately show "decode_step s s' \<and> patient_id enc' = patient_id enc \<and>
    (\<exists>pa. sol_patients (solution s') = sol_patients (solution s) @ [pa] \<and> placed_as pa enc')"
    using i by simp
qed

lemma processPatients_result:
  assumes "repair_contract r"
  shows "processPatients r s encs = Inr (encs', s') \<Longrightarrow>
     decode_step s s' \<and> map patient_id encs' = map patient_id encs \<and>
     (\<exists>pas. sol_patients (solution s') = sol_patients (solution s) @ pas \<and> list_all2 placed_as pas encs')"
proof (induction encs arbitrary: s encs')
  case Nil
  then show ?case by simp
next
  case (Cons enc encs)
  from Cons.prems obtain e1 s1 es where
    a: "placePatient r s enc = Inr (e1, s1)" and b: "processPatients r s1 encs = Inr (es, s')"
    and c: "encs' = e1 # es"
    by (auto simp: ebind_eq_Inr)
  note pa = placePatient_result [OF assms a]
  from pa(3) obtain p1 where p1: "sol_patients (solution s1) = sol_patients (solution s) @ [p1]" "placed_as p1 e1"
    by blast
  from Cons.IH [OF b] obtain pas where ih: "decode_step s1 s'" "map patient_id es = map patient_id encs"
    "sol_patients (solution s') = sol_patients (solution s1) @ pas" "list_all2 placed_as pas es"
    by blast
  from pa(1) ih(1) have "decode_step s s'" by (rule decode_step_trans)
  moreover from pa(2) ih(2) c have "map patient_id encs' = map patient_id (enc # encs)" by simp
  moreover from p1 ih(3,4) c
  have "sol_patients (solution s') = sol_patients (solution s) @ (p1 # pas) \<and> list_all2 placed_as (p1 # pas) encs'"
    by simp
  ultimately show ?case by blast
qed

section \<open>Where the repair routines run\<close>

lemma placePatient_listed:
  assumes "availability_listed s"
  shows "placePatient (in_listed_state r) s enc = placePatient r s enc"
proof (cases "find (\<lambda>p. pat_id p = patient_id enc) (patients (problem s))")
  case None
  then show ?thesis by (simp add: placePatient_def)
next
  case (Some patient)
  show ?thesis
  proof (cases "checkAll s patient (admission_day enc) (room_id enc)")
    case (Inl e)
    with Some show ?thesis by (simp add: placePatient_def)
  next
    case (Inr x)
    obtain ok s1 where x: "x = (ok, s1)" by (cases x)
    from Inr x have "touched_from s s1" using checkAll_touched by simp
    from touched_from_listed [OF this assms] have "in_listed_state r s1 patient enc = r s1 patient enc"
      by (simp add: in_listed_state_def)
    with Some Inr x show ?thesis by (simp add: placePatient_def)
  qed
qed

lemma processPatients_listed:
  assumes "repair_contract r"
  shows "availability_listed s \<Longrightarrow> processPatients (in_listed_state r) s encs = processPatients r s encs"
proof (induction encs arbitrary: s)
  case Nil
  show ?case by simp
next
  case (Cons enc encs)
  show ?case
  proof (cases "placePatient r s enc")
    case (Inl e)
    with placePatient_listed [OF Cons.prems, of r enc] show ?thesis by simp
  next
    case (Inr x)
    obtain e1 s1 where x: "x = (e1, s1)" by (cases x)
    from placePatient_result(1) [OF assms, of s enc e1 s1] Inr x Cons.prems
    have "availability_listed s1" by (simp add: decode_step_def)
    from Cons.IH [OF this] placePatient_listed [OF Cons.prems, of r enc] Inr x
    show ?thesis by simp
  qed
qed

lemma repairs_run_in_listed_states:
  assumes "initializeDynamicStates s = Inr s0"
  shows "processPatients (in_listed_state repairMandatoryPatient) s0 mandatoryEnc =
           processPatients repairMandatoryPatient s0 mandatoryEnc"
    and "processPatients repairMandatoryPatient s0 mandatoryEnc = Inr (mandatoryEnc', s1) \<Longrightarrow>
         processPatients (in_listed_state repairOptionalPatient) s1 optionalEnc =
           processPatients repairOptionalPatient s1 optionalEnc"
proof -
  note l = initializeDynamicStates_result(1) [OF assms]
  from processPatients_listed [OF repairMandatoryPatient_contract l]
  show "processPatients (in_listed_state repairMandatoryPatient) s0 mandatoryEnc =
           processPatients repairMandatoryPatient s0 mandatoryEnc" .
  assume "processPatients repairMandatoryPatient s0 mandatoryEnc = Inr (mandatoryEnc', s1)"
  from processPatients_result [OF repairMandatoryPatient_contract this] l
  have "availability_listed s1" by (simp add: decode_step_def)
  from processPatients_listed [OF repairOptionalPatient_contract this]
  show "processPatients (in_listed_state repairOptionalPatient) s1 optionalEnc =
           processPatients repairOptionalPatient s1 optionalEnc" .
qed

section \<open>Repeated calls of the entry point\<close>

lemma initializeDynamicStates_same:
  assumes "same_instance s s'"
  shows "initializeDynamicStates s' = initializeDynamicStates s"
proof -
  from assms obtain sg where o: "originalProblem s' = originalProblem s"
    and p: "problem s' = (problem s)\<lparr>surgeons := sg\<rparr>"
    by (auto simp: same_instance_def)
  have e: "s'\<lparr>problem := x, solution := y\<rparr> = s\<lparr>problem := x, solution := y\<rparr>" for x y
    using o by (cases s; cases s') simp
  show ?thesis
    unfolding initializeDynamicStates_def o p by (simp add: e)
qed

lemma solve_decode_same:
  "same_instance s s' \<Longrightarrow> solve_decode s' enc = solve_decode s enc"
  by (simp add: solve_decode_def initializeDynamicStates_same)

lemma solve_same:
  "same_instance s s' \<Longrightarrow> solve s' enc = solve s enc"
  by (simp add: solve_def solve_decode_same)

lemma solve_decode_result:
  assumes "solve_decode s enc = Inr ((mandatoryEnc', optionalEnc'), s3)"
  shows "same_instance s s3"
    and "\<exists>mandatoryEnc optionalEnc.
           splitEncoded (patients (problem s)) (encoded_patients enc) = Inr (mandatoryEnc, optionalEnc) \<and>
           map patient_id mandatoryEnc' = map patient_id mandatoryEnc \<and>
           map patient_id optionalEnc' = map patient_id optionalEnc"
    and "list_all2 placed_as (sol_patients (solution s3)) (mandatoryEnc' @ optionalEnc')"
proof -
  from assms obtain s0 mandatoryEnc optionalEnc s1 s2 nas where
    i: "initializeDynamicStates s = Inr s0"
    and sp: "splitEncoded (patients (problem s0)) (encoded_patients enc) = Inr (mandatoryEnc, optionalEnc)"
    and m: "processPatients repairMandatoryPatient s0 mandatoryEnc = Inr (mandatoryEnc', s1)"
    and opt: "processPatients repairOptionalPatient s1 optionalEnc = Inr (optionalEnc', s2)"
    and s3: "s3 = s2\<lparr>solution := (solution s2)\<lparr>sol_nurses := sol_nurses (solution s2) @ nas\<rparr>\<rparr>"
    by (auto simp: solve_decode_def ebind_eq_Inr)
  note ri = initializeDynamicStates_result [OF i]
  note rm = processPatients_result [OF repairMandatoryPatient_contract m]
  note ro = processPatients_result [OF repairOptionalPatient_contract opt]
  from rm ro have "same_instance s0 s1" "same_instance s1 s2" by (simp_all add: decode_step_def)
  moreover from s3 have "same_instance s2 s3" by (intro same_instance_problem) simp_all
  ultimately show "same_instance s s3"
    using ri(2) same_instance_trans by blast
  from sp same_instance_fields(3) [OF ri(2)] rm ro
  show "\<exists>mandatoryEnc optionalEnc.
           splitEncoded (patients (problem s)) (encoded_patients enc) = Inr (mandatoryEnc, optionalEnc) \<and>
           map patient_id mandatoryEnc' = map patient_id mandatoryEnc \<and>
           map patient_id optionalEnc' = map patient_id optionalEnc"
    by auto
  from rm obtain pm where pm: "sol_patients (solution s1) = sol_patients (solution s0) @ pm"
    "list_all2 placed_as pm mandatoryEnc'" by blast
  from ro obtain po where po: "sol_patients (solution s2) = sol_patients (solution s1) @ po"
    "list_all2 placed_as po optionalEnc'" by blast
  from pm po ri(3) s3 have "sol_patients (solution s3) = pm @ po" by simp
  with pm(2) po(2) show "list_all2 placed_as (sol_patients (solution s3)) (mandatoryEnc' @ optionalEnc')"
    by (simp add: list_all2_appendI)
qed

lemma calculateSoftConstraints_result:
  assumes "calculateSoftConstraints s = Inr (soft, s')"
  shows "problem s' = problem s" "originalProblem s' = originalProblem s"
    "\<exists>cs t. solution s' = (solution s)\<lparr>soft_constraints := cs, total_soft_constraints := t\<rparr>"
proof -
  from assms have "\<exists>cs t. s' = s\<lparr>solution := (solution s)\<lparr>soft_constraints := cs, total_soft_constraints := t\<rparr>\<rparr>"
    apply (clarsimp simp: calculateSoftConstraints_def ebind_eq_Inr Let_def)
    apply (rule exI, rule exI, rule refl)
    done
  then obtain cs t where "s' = s\<lparr>solution := (solution s)\<lparr>soft_constraints := cs, total_soft_constraints := t\<rparr>\<rparr>"
    by blast
  then show "problem s' = problem s" "originalProblem s' = originalProblem s"
    "\<exists>cs t. solution s' = (solution s)\<lparr>soft_constraints := cs, total_soft_constraints := t\<rparr>"
    by auto
qed

lemma solve_result:
  assumes "solve s enc = Inr (r, s', enc')"
  shows "enc' = enc" and "same_instance s s'"
    and "\<exists>locals s3. solve_decode s enc = Inr (locals, s3) \<and>
           sol_patients (solution s') = sol_patients (solution s3)"
proof -
  from assms obtain locals s3 soft where
    d: "solve_decode s enc = Inr (locals, s3)"
    and c: "calculateSoftConstraints s3 = Inr (soft, s')" and e: "enc' = enc"
    by (auto simp: solve_def ebind_eq_Inr)
  show "enc' = enc" by (rule e)
  obtain me oe where "locals = (me, oe)" by (cases locals)
  with d have "same_instance s s3" using solve_decode_result(1) by blast
  moreover from calculateSoftConstraints_result [OF c] have "same_instance s3 s'"
    by (intro same_instance_problem) simp_all
  ultimately show "same_instance s s'" by (rule same_instance_trans)
  from calculateSoftConstraints_result(3) [OF c] have "sol_patients (solution s') = sol_patients (solution s3)"
    by auto
  with d show "\<exists>locals s3. solve_decode s enc = Inr (locals, s3) \<and>
           sol_patients (solution s') = sol_patients (solution s3)" by blast
qed

text \<open>
  C1. When \<^verbatim>\<open>solve\<close> returns for a solver and an encoded solution, calling it again, on
  the solver and the encoded solution that the first call left, returns the same pair of
  hard violations and soft penalty (and leaves the same solver). The first call changes
  only the surgeons' budgets of the working instance and the solution, and
  \<^verbatim>\<open>initializeDynamicStates\<close> rebuilds both from what it left untouched.
\<close>

theorem solve_deterministic:
  assumes "solve s encodedSolution = Inr ((hardViolations, softPenalty), s', encodedSolution')"
  shows "solve s' encodedSolution' = Inr ((hardViolations, softPenalty), s', encodedSolution')"
  using solve_same [OF solve_result(2) [OF assms], of encodedSolution] solve_result(1) [OF assms] assms
  by simp

theorem solve_deterministic_witness:
  "\<exists>s'. solve (new_Solver W_problem) W_encoded = Inr ((0, 6), s', W_encoded) \<and>
        solve s' W_encoded = Inr ((0, 6), s', W_encoded)"
proof -
  have a: "map_sum id fst (solve (new_Solver W_problem) W_encoded) = Inr (0, 6)"
    by code_simp
  then obtain s' e' where r: "solve (new_Solver W_problem) W_encoded = Inr ((0, 6), s', e')"
    by (cases "solve (new_Solver W_problem) W_encoded") auto
  from solve_result(1) [OF r] have e: "e' = W_encoded" .
  from solve_deterministic [OF r] r e show ?thesis by blast
qed

section \<open>The encoded solution of the caller\<close>

text \<open>
  C7, as stated, fails. In the small instance the surgeon has no time on day 0, so the
  entry of patient p1, encoded at day 0, is repaired to day 1 and the decoded solution
  admits p1 on day 1; the encoded solution of the caller still says day 0 after the call.
\<close>

theorem solve_mutates_encoded_counterexample:
  "solve_observed (new_Solver W_problem) W_encoded =
     Some ([\<lparr>pa_id = ''p1'', pa_admission_day = Some 1, pa_room = Some ''r1'',
              pa_operating_theater = Some ''t2''\<rparr>,
            \<lparr>pa_id = ''p2'', pa_admission_day = None, pa_room = None,
              pa_operating_theater = None\<rparr>],
           [\<lparr>patient_id = ''p2'', admission_day = 0, room_id = ''r1''\<rparr>,
            \<lparr>patient_id = ''p1'', admission_day = 0, room_id = ''r1''\<rparr>])"
  by code_simp

text \<open>
  C7, amended. \<^verbatim>\<open>solve\<close> leaves the caller's encoded solution as it was. A repair
  relocates the copy of the entry that \<^verbatim>\<open>solve\<close> holds in its local vectors
  \<^verbatim>\<open>mandatoryEnc\<close> and \<^verbatim>\<open>optionalEnc\<close>: every entry of the decoded patient list that has
  an admission day carries the patient, the day and the room of the local copy at the
  same position.
\<close>

theorem solve_keeps_encoded:
  assumes "solve s encodedSolution = Inr (scores, s', encodedSolution')"
  shows "encodedSolution' = encodedSolution \<and>
         (\<exists>mandatoryEnc' optionalEnc' s3.
            solve_decode s encodedSolution = Inr ((mandatoryEnc', optionalEnc'), s3) \<and>
            list_all2 placed_as (sol_patients (solution s')) (mandatoryEnc' @ optionalEnc'))"
proof -
  from solve_result(3) [OF assms] obtain locals s3 where
    d: "solve_decode s encodedSolution = Inr (locals, s3)"
    and p: "sol_patients (solution s') = sol_patients (solution s3)" by blast
  obtain me oe where l: "locals = (me, oe)" by (cases locals)
  from solve_decode_result(3) [of s encodedSolution me oe s3] d l p
  have "list_all2 placed_as (sol_patients (solution s')) (me @ oe)" by simp
  with d l solve_result(1) [OF assms] show ?thesis by blast
qed

theorem solve_keeps_encoded_witness:
  "\<exists>s' s3. solve (new_Solver W_problem) W_encoded = Inr ((0, 6), s', W_encoded) \<and>
     solve_decode (new_Solver W_problem) W_encoded =
       Inr (([\<lparr>patient_id = ''p1'', admission_day = 1, room_id = ''r1''\<rparr>],
             [\<lparr>patient_id = ''p2'', admission_day = 0, room_id = ''r1''\<rparr>]), s3) \<and>
     list_all2 placed_as (sol_patients (solution s'))
       [\<lparr>patient_id = ''p1'', admission_day = 1, room_id = ''r1''\<rparr>,
        \<lparr>patient_id = ''p2'', admission_day = 0, room_id = ''r1''\<rparr>]"
proof -
  have a: "map_sum id fst (solve (new_Solver W_problem) W_encoded) = Inr (0, 6)"
    by code_simp
  then obtain s' e' where r: "solve (new_Solver W_problem) W_encoded = Inr ((0, 6), s', e')"
    by (cases "solve (new_Solver W_problem) W_encoded") auto
  have b: "map_sum id fst (solve_decode (new_Solver W_problem) W_encoded) =
       Inr ([\<lparr>patient_id = ''p1'', admission_day = 1, room_id = ''r1''\<rparr>],
            [\<lparr>patient_id = ''p2'', admission_day = 0, room_id = ''r1''\<rparr>])"
    by code_simp
  from solve_keeps_encoded [OF r] b r show ?thesis
    by auto
qed

section \<open>Every patient is decoded\<close>

lemma splitEncoded_count:
  "splitEncoded ps encs = Inr (m, opt) \<Longrightarrow>
   count_list (map patient_id (m @ opt)) i = count_list (map patient_id encs) i"
proof (induction encs arbitrary: m opt)
  case Nil
  then show ?case by simp
next
  case (Cons enc encs)
  from Cons.prems obtain patient where p: "find (\<lambda>p. pat_id p = patient_id enc) ps = Some patient"
    by (cases "find (\<lambda>p. pat_id p = patient_id enc) ps") auto
  with Cons.prems obtain x where x: "splitEncoded ps encs = Inr x"
    by (auto simp: ebind_eq_Inr)
  obtain m' opt' where x': "x = (m', opt')" by (cases x)
  from Cons.IH [of m' opt'] x x'
  have ih: "count_list (map patient_id (m' @ opt')) i = count_list (map patient_id encs) i" by simp
  show ?case
  proof (cases "mandatory patient")
    case True
    with Cons.prems p x x' have "m = enc # m'" "opt = opt'" by auto
    with ih show ?thesis by simp
  next
    case False
    with Cons.prems p x x' have "m = m'" "opt = enc # opt'" by auto
    with ih show ?thesis by simp
  qed
qed

lemma placed_as_ids: "list_all2 placed_as pas es \<Longrightarrow> map pa_id pas = map patient_id es"
  by (induction rule: list_all2_induct) (simp_all add: placed_as_def)

lemma solve_decode_ids:
  assumes "solve_decode s enc = Inr (locals, s3)"
  shows "count_list (map pa_id (sol_patients (solution s3))) i =
         count_list (map patient_id (encoded_patients enc)) i"
proof -
  obtain me oe where l: "locals = (me, oe)" by (cases locals)
  from solve_decode_result(2) [of s enc me oe s3] assms l obtain m opt where
    sp: "splitEncoded (patients (problem s)) (encoded_patients enc) = Inr (m, opt)"
    and e: "map patient_id me = map patient_id m" "map patient_id oe = map patient_id opt"
    by blast
  from solve_decode_result(3) [of s enc me oe s3] assms l
  have "map pa_id (sol_patients (solution s3)) = map patient_id (me @ oe)"
    by (simp add: placed_as_ids)
  with e have "map pa_id (sol_patients (solution s3)) = map patient_id (m @ opt)" by simp
  with splitEncoded_count [OF sp, of i] show ?thesis by simp
qed

lemma count_one_find:
  "count_list (map f xs) k = 1 \<Longrightarrow>
   \<exists>x. find (\<lambda>y. f y = k) xs = Some x \<and> (\<forall>y\<in>set xs. f y = k \<longrightarrow> y = x)"
proof (induction xs)
  case Nil
  then show ?case by simp
next
  case (Cons x xs)
  show ?case
  proof (cases "f x = k")
    case True
    with Cons.prems have "count_list (map f xs) k = 0" by simp
    then have "\<forall>y\<in>set xs. f y \<noteq> k" by (auto simp: count_list_0_iff)
    with True show ?thesis by auto
  next
    case False
    with Cons.prems have "count_list (map f xs) k = 1" by simp
    from Cons.IH [OF this] False show ?thesis by auto
  qed
qed

lemma find_SomeD: "find P xs = Some x \<Longrightarrow> P x \<and> x \<in> set xs"
  by (induction xs) (auto split: if_splits)

lemma found_admitted:
  assumes "count_list (map pa_id (sol_patients (solution s))) (pat_id patient) = 1"
  shows "\<exists>pa. find (\<lambda>pa. pa_id pa = pat_id patient) (sol_patients (solution s)) = Some pa \<and>
              pa \<in> set (sol_patients (solution s)) \<and> pa_id pa = pat_id patient \<and>
              (pa_admission_day pa = None \<longleftrightarrow> \<not> admitted s patient)"
proof -
  from count_one_find [OF assms] obtain pa where
    f: "find (\<lambda>pa. pa_id pa = pat_id patient) (sol_patients (solution s)) = Some pa"
    and u: "\<forall>y\<in>set (sol_patients (solution s)). pa_id y = pat_id patient \<longrightarrow> y = pa"
    by blast
  from find_SomeD [OF f] have m: "pa \<in> set (sol_patients (solution s))" "pa_id pa = pat_id patient"
    by simp_all
  have "pa_admission_day pa = None \<longleftrightarrow> \<not> admitted s patient"
  proof
    assume n: "pa_admission_day pa = None"
    show "\<not> admitted s patient"
    proof
      assume "admitted s patient"
      then obtain y where y: "y \<in> set (sol_patients (solution s))" "pa_id y = pat_id patient"
        "pa_admission_day y \<noteq> None"
        unfolding admitted_def by (elim bexE conjE)
      from u y(1,2) have "y = pa" by simp
      with y(3) n show False by simp
    qed
  next
    assume a: "\<not> admitted s patient"
    show "pa_admission_day pa = None"
    proof (rule ccontr)
      assume "pa_admission_day pa \<noteq> None"
      with m have "admitted s patient"
        unfolding admitted_def by (intro bexI [of _ pa] conjI)
      with a show False by simp
    qed
  qed
  with f m show ?thesis by (intro exI [of _ pa] conjI)
qed

lemma count_where_Cons [simp]:
  "count_where P (x # xs) = (if P x then 1 else 0) + count_where P xs"
  by (simp add: count_where_def)

lemma count_where_Nil [simp]: "count_where P [] = 0"
  by (simp add: count_where_def)

lemma H5_counts:
  "\<forall>p\<in>set ps. count_list (map pa_id (sol_patients (solution s))) (pat_id p) = 1 \<Longrightarrow>
   sum_faulty (unadmitted_mandatory s) ps = Inr (count_where (\<lambda>p. mandatory p \<and> \<not> admitted s p) ps)"
proof (induction ps)
  case Nil
  show ?case by simp
next
  case (Cons p ps)
  from Cons.prems have "count_list (map pa_id (sol_patients (solution s))) (pat_id p) = 1" by simp
  from found_admitted [OF this] obtain pa where
    "find (\<lambda>pa. pa_id pa = pat_id p) (sol_patients (solution s)) = Some pa"
    "pa_admission_day pa = None \<longleftrightarrow> \<not> admitted s p" by (elim exE conjE)
  then have "unadmitted_mandatory s p = Inr (if mandatory p \<and> \<not> admitted s p then 1 else 0)"
    by (simp add: unadmitted_mandatory_def)
  moreover from Cons have "sum_faulty (unadmitted_mandatory s) ps =
      Inr (count_where (\<lambda>p. mandatory p \<and> \<not> admitted s p) ps)" by simp
  ultimately show ?case by simp
qed

lemma S8_counts:
  "\<forall>p\<in>set ps. count_list (map pa_id (sol_patients (solution s))) (pat_id p) = 1 \<Longrightarrow>
   sum_faulty (unscheduled_optional_patient s) ps =
     Inr (count_where (\<lambda>p. \<not> mandatory p \<and> \<not> admitted s p) ps)"
proof (induction ps)
  case Nil
  show ?case by simp
next
  case (Cons p ps)
  from Cons.prems have "count_list (map pa_id (sol_patients (solution s))) (pat_id p) = 1" by simp
  from found_admitted [OF this] obtain pa where
    "find (\<lambda>pa. pa_id pa = pat_id p) (sol_patients (solution s)) = Some pa"
    "pa_admission_day pa = None \<longleftrightarrow> \<not> admitted s p" by (elim exE conjE)
  then have "unscheduled_optional_patient s p = Inr (if \<not> mandatory p \<and> \<not> admitted s p then 1 else 0)"
    by (simp add: unscheduled_optional_patient_def)
  moreover from Cons have "sum_faulty (unscheduled_optional_patient s) ps =
      Inr (count_where (\<lambda>p. \<not> mandatory p \<and> \<not> admitted s p) ps)" by simp
  ultimately show ?case by simp
qed

text \<open>
  C10. Let every patient of the instance have exactly one encoded entry with its
  identifier, and let the decoding part of \<^verbatim>\<open>solve\<close> complete. Then every patient has an
  entry in the decoded patient list. In the state in which \<^verbatim>\<open>solve\<close> evaluates the
  constraints, H5 returns a number, so none of its lookups ends at the end iterator, and
  the number is that of the mandatory patients without an admission day; the S8 penalty
  returns a number, so its not-found branch is not taken, and the number is the weight
  times the number of optional patients without an admission day.
\<close>

theorem decoded_patients_complete:
  assumes "solve_decode s encodedSolution = Inr (locals, s3)"
    and "\<forall>p\<in>set (patients (problem s)).
           count_list (map patient_id (encoded_patients encodedSolution)) (pat_id p) = 1"
    and "patients (originalProblem s) = patients (problem s)"
  shows "(\<forall>p\<in>set (patients (problem s)). \<exists>pa\<in>set (sol_patients (solution s3)). pa_id pa = pat_id p) \<and>
         hard_H5 s3 =
           Inr (count_where (\<lambda>p. mandatory p \<and> \<not> admitted s3 p) (patients (originalProblem s3))) \<and>
         calculateUnscheduledOptionalPatientsPenalty s3 =
           Inr (count_where (\<lambda>p. \<not> mandatory p \<and> \<not> admitted s3 p) (patients (problem s3))
                  * unscheduled_optional (weights (problem s3)))"
proof -
  obtain me oe where l: "locals = (me, oe)" by (cases locals)
  from solve_decode_result(1) [of s encodedSolution me oe s3] assms(1) l
  have i: "same_instance s s3" by simp
  note f = same_instance_fields [OF i]
  from assms(2) solve_decode_ids [OF assms(1)]
  have c: "\<forall>p\<in>set (patients (problem s)).
             count_list (map pa_id (sol_patients (solution s3))) (pat_id p) = 1" by simp
  have "\<exists>pa\<in>set (sol_patients (solution s3)). pa_id pa = pat_id p" if "p \<in> set (patients (problem s))" for p
    using found_admitted [of s3 p] c that by blast
  moreover from H5_counts [OF c] f(8) assms(3)
  have "hard_H5 s3 = Inr (count_where (\<lambda>p. mandatory p \<and> \<not> admitted s3 p) (patients (originalProblem s3)))"
    by (simp add: hard_H5_def)
  moreover from S8_counts [OF c] f(3)
  have "calculateUnscheduledOptionalPatientsPenalty s3 =
           Inr (count_where (\<lambda>p. \<not> mandatory p \<and> \<not> admitted s3 p) (patients (problem s3))
                  * unscheduled_optional (weights (problem s3)))"
    by (simp add: calculateUnscheduledOptionalPatientsPenalty_def)
  ultimately show ?thesis by blast
qed

theorem decoded_patients_complete_witness:
  "map (\<lambda>p. count_list (map patient_id (encoded_patients W_encoded)) (pat_id p))
     (patients (problem (new_Solver W_problem))) = [1, 1] \<and>
   (\<exists>locals s3. solve_decode (new_Solver W_problem) W_encoded = Inr (locals, s3) \<and>
      hard_H5 s3 = Inr 0 \<and> calculateUnscheduledOptionalPatientsPenalty s3 = Inr 1)"
proof -
  let ?s = "new_Solver W_problem"
  have a: "map (\<lambda>p. count_list (map patient_id (encoded_patients W_encoded)) (pat_id p))
     (patients (problem ?s)) = [1, 1]"
    by code_simp
  then have h: "\<forall>p\<in>set (patients (problem ?s)).
           count_list (map patient_id (encoded_patients W_encoded)) (pat_id p) = 1"
    by (simp add: new_Solver_def W_problem_def W_encoded_def W_mandatory_def W_optional_def)
  have o: "patients (originalProblem ?s) = patients (problem ?s)"
    by (simp add: new_Solver_def)
  have b: "map_sum id (\<lambda>(l, s3). (hard_H5 s3, calculateUnscheduledOptionalPatientsPenalty s3))
             (solve_decode ?s W_encoded) = Inr (Inr 0, Inr 1)"
    by code_simp
  then obtain locals s3 where d: "solve_decode ?s W_encoded = Inr (locals, s3)"
    and e: "hard_H5 s3 = Inr 0" "calculateUnscheduledOptionalPatientsPenalty s3 = Inr 1"
    by (cases "solve_decode ?s W_encoded") auto
  from decoded_patients_complete [OF d h o] a d e show ?thesis by blast
qed

section \<open>Nurse coverage\<close>

lemma count_where_append [simp]: "count_where P (xs @ ys) = count_where P xs + count_where P ys"
  by (simp add: count_where_def)

lemma count_where_map: "count_where P (map f xs) = count_where (\<lambda>x. P (f x)) xs"
  by (simp add: count_where_def filter_map comp_def)

lemma isOccupied_occupied: "isOccupied rs day \<longleftrightarrow> occupied rs day"
  by (cases "map_of (patients_per_day rs) day"; cases "map_of (occupants_per_day rs) day")
     (simp_all add: isOccupied_def occupied_def patients_on_def occupants_on_def)

lemma shift_covers_iff:
  "shift_covers sas day shift rid \<longleftrightarrow>
     (\<exists>sa\<in>set sas. sa_day sa = day \<and> sa_shift sa = shift \<and> rid \<in> set (sa_rooms sa))"
proof (induction sas)
  case Nil
  show ?case by simp
next
  case (Cons sa sas)
  show ?case
    by (cases "sa_day sa = day \<and> sa_shift sa = shift \<and> rid \<in> set (sa_rooms sa)")
       (simp_all add: Cons.IH, blast)
qed

lemma nurseAssigned_iff:
  "nurseAssigned nas day shift rid \<longleftrightarrow>
     (\<exists>na\<in>set nas. \<exists>sa\<in>set (assignments na).
        sa_day sa = day \<and> sa_shift sa = shift \<and> rid \<in> set (sa_rooms sa))"
proof (induction nas)
  case Nil
  show ?case by simp
next
  case (Cons na nas)
  have "nurseAssigned (na # nas) day shift rid \<longleftrightarrow>
          shift_covers (assignments na) day shift rid \<or> nurseAssigned nas day shift rid"
    by simp
  then show ?case
    unfolding Cons.IH shift_covers_iff by auto
qed

lemma uncovered_shifts_count:
  "uncovered_shifts s rs day shifts =
     count_where (\<lambda>shift. \<not> covered s day shift (room_ident (room_info rs))) shifts"
  by (induction shifts) (simp_all add: nurseAssigned_iff covered_def)

lemma count_where_False [simp]: "count_where (\<lambda>x. False) xs = 0"
  by (simp add: count_where_def)

lemma uncovered_days_count:
  "uncovered_days s rs ds =
     count_where (\<lambda>(day, shift). occupied rs day \<and> \<not> covered s day shift (room_ident (room_info rs)))
       (List.product ds (shift_types (originalProblem s)))"
  by (induction ds)
     (simp_all add: uncovered_shifts_count isOccupied_occupied count_where_map)

lemma uncovered_rooms_count:
  "uncovered_rooms s rss =
     count_where (\<lambda>(rs, day, shift). occupied rs day \<and> \<not> covered s day shift (room_ident (room_info rs)))
       (List.product rss
          (List.product (day_range 0 (days (originalProblem s))) (shift_types (originalProblem s))))"
  by (induction rss) (simp_all add: uncovered_days_count count_where_map)

text \<open>
  C6. The H8 part of the hard count is the number of triples of a room state, a day of
  the horizon and a declared shift type such that the room is occupied on the day (by a
  patient or an occupant) and no shift assignment of any nurse for that day and shift
  lists the room. A shift type for which no nurse has any shift assignment is never
  covered, so it contributes one violation for every occupied room and day.
\<close>

theorem H8_counts_uncovered_triples:
  "hard_H8 s =
     count_where (\<lambda>(rs, day, shift). occupied rs day \<and> \<not> covered s day shift (room_ident (room_info rs)))
       (room_day_shifts s) \<and>
   (\<forall>shift. (\<forall>na\<in>set (sol_nurses (solution s)). \<forall>sa\<in>set (assignments na). sa_shift sa \<noteq> shift) \<longrightarrow>
      count_where (\<lambda>(rs, day, shift'). shift' = shift \<and> occupied rs day \<and>
                     \<not> covered s day shift' (room_ident (room_info rs))) (room_day_shifts s) =
      count_where (\<lambda>(rs, day, shift'). shift' = shift \<and> occupied rs day) (room_day_shifts s))"
proof (intro conjI allI impI)
  show "hard_H8 s =
     count_where (\<lambda>(rs, day, shift). occupied rs day \<and> \<not> covered s day shift (room_ident (room_info rs)))
       (room_day_shifts s)"
    by (simp add: hard_H8_def uncovered_rooms_count room_day_shifts_def)
next
  fix shift
  assume n: "\<forall>na\<in>set (sol_nurses (solution s)). \<forall>sa\<in>set (assignments na). sa_shift sa \<noteq> shift"
  then have "\<not> covered s day shift rid" for day rid
    unfolding covered_def by blast
  then have "(\<lambda>(rs, day, shift'). shift' = shift \<and> occupied rs day \<and>
                     \<not> covered s day shift' (room_ident (room_info rs))) =
             (\<lambda>(rs, day, shift'). shift' = shift \<and> occupied rs day)"
    by (auto simp: fun_eq_iff)
  then show "count_where (\<lambda>(rs, day, shift'). shift' = shift \<and> occupied rs day \<and>
                     \<not> covered s day shift' (room_ident (room_info rs))) (room_day_shifts s) =
      count_where (\<lambda>(rs, day, shift'). shift' = shift \<and> occupied rs day) (room_day_shifts s)"
    by simp
qed

theorem H8_counts_uncovered_triples_witness:
  "list_all (\<lambda>na. list_all (\<lambda>sa. sa_shift sa \<noteq> ''late'') (assignments na)) (sol_nurses (solution W_two_shifts)) \<and>
   hard_H8 W_two_shifts = 1 \<and>
   count_where (\<lambda>(rs, day, shift'). shift' = ''late'' \<and> occupied rs day \<and>
                  \<not> covered W_two_shifts day shift' (room_ident (room_info rs))) (room_day_shifts W_two_shifts) = 1"
proof -
  have a: "list_all (\<lambda>na. list_all (\<lambda>sa. sa_shift sa \<noteq> ''late'') (assignments na)) (sol_nurses (solution W_two_shifts))"
    by code_simp
  then have h: "\<forall>na\<in>set (sol_nurses (solution W_two_shifts)). \<forall>sa\<in>set (assignments na). sa_shift sa \<noteq> ''late''"
    by (simp add: list_all_iff)
  have b: "hard_H8 W_two_shifts = 1" by code_simp
  have c: "count_where (\<lambda>(rs, day, shift'). shift' = ''late'' \<and> occupied rs day) (room_day_shifts W_two_shifts) = 1"
    by code_simp
  from H8_counts_uncovered_triples [of W_two_shifts] h c a b show ?thesis by simp
qed

section \<open>The evaluation does not read the cached soft costs\<close>

lemma with_soft_fields [simp]:
  "problem (with_soft cs t s) = problem s"
  "originalProblem (with_soft cs t s) = originalProblem s"
  "roomStates (solution (with_soft cs t s)) = roomStates (solution s)"
  "theaterStates (solution (with_soft cs t s)) = theaterStates (solution s)"
  "sol_patients (solution (with_soft cs t s)) = sol_patients (solution s)"
  "sol_nurses (solution (with_soft cs t s)) = sol_nurses (solution s)"
  "soft_constraints (solution (with_soft cs t s)) = cs"
  "total_soft_constraints (solution (with_soft cs t s)) = t"
  by (simp_all add: with_soft_def)

lemma with_soft_skill_gap [simp]:
  "skill_gap (with_soft cs t s) = skill_gap s"
  "patient_skill (with_soft cs t s) = patient_skill s"
  "occupant_skill (with_soft cs t s) = occupant_skill s"
  by (simp_all add: fun_eq_iff skill_gap_def patient_skill_def occupant_skill_def
      cong: option.case_cong if_cong)

lemma with_soft_room_skill [simp]: "room_skill (with_soft cs t s) = room_skill s"
  by (simp add: fun_eq_iff room_skill_def cong: option.case_cong if_cong)

lemma with_soft_nurse_skill [simp]: "nurse_skill (with_soft cs t s) = nurse_skill s"
  by (simp add: fun_eq_iff nurse_skill_def cong: option.case_cong if_cong)

lemma with_soft_S2 [simp]:
  "calculateMinimumSkillPenalty (with_soft cs t s) = calculateMinimumSkillPenalty s"
  by (simp add: calculateMinimumSkillPenalty_def)

lemma with_soft_covering_nurses [simp]: "covering_nurses (with_soft cs t s) = covering_nurses s"
  by (simp add: fun_eq_iff covering_nurses_def)

lemma with_soft_uniqueNurses [simp]: "uniqueNurses (with_soft cs t s) = uniqueNurses s"
  by (simp add: fun_eq_iff uniqueNurses_def cong: option.case_cong if_cong)

lemma with_soft_continuity [simp]:
  "occupant_continuity (with_soft cs t s) = occupant_continuity s"
  "patient_continuity (with_soft cs t s) = patient_continuity s"
  by (simp_all add: fun_eq_iff occupant_continuity_def patient_continuity_def
      cong: option.case_cong if_cong)

lemma with_soft_S3 [simp]:
  "calculateContinuityOfCarePenalty (with_soft cs t s) = calculateContinuityOfCarePenalty s"
  by (simp add: calculateContinuityOfCarePenalty_def)

lemma with_soft_patient_workload [simp]: "patient_workload (with_soft cs t s) = patient_workload s"
  by (simp add: fun_eq_iff patient_workload_def)

lemma with_soft_room_workload [simp]: "room_workload (with_soft cs t s) = room_workload s"
  by (simp add: fun_eq_iff room_workload_def cong: option.case_cong if_cong)

lemma with_soft_shift_workload [simp]: "shift_workload (with_soft cs t s) = shift_workload s"
  by (simp add: fun_eq_iff shift_workload_def cong: option.case_cong if_cong)

lemma with_soft_nurse_workload [simp]: "nurse_workload (with_soft cs t s) = nurse_workload s"
  by (simp add: fun_eq_iff nurse_workload_def cong: option.case_cong if_cong)

lemma with_soft_S4 [simp]:
  "calculateMaximumWorkloadPenalty (with_soft cs t s) = calculateMaximumWorkloadPenalty s"
  by (simp add: calculateMaximumWorkloadPenalty_def)

lemma with_soft_covered [simp]: "covered (with_soft cs t s) = covered s"
  by (simp add: fun_eq_iff covered_def)

lemma with_soft_hard_parts [simp]:
  "hard_H1 (with_soft cs t s) = hard_H1 s"
  "hard_H2 (with_soft cs t s) = hard_H2 s"
  "surgeon_overtime (with_soft cs t s) = surgeon_overtime s"
  "hard_H4 (with_soft cs t s) = hard_H4 s"
  "unadmitted_mandatory (with_soft cs t s) = unadmitted_mandatory s"
  "hard_H6 (with_soft cs t s) = hard_H6 s"
  "hard_H7 (with_soft cs t s) = hard_H7 s"
  "hard_H8 (with_soft cs t s) = hard_H8 s"
  by (simp_all add: fun_eq_iff hard_H1_def hard_H2_def surgeon_overtime_def hard_H4_def
      unadmitted_mandatory_def hard_H6_def hard_H7_def hard_H8_def uncovered_rooms_count
      cong: option.case_cong if_cong)

lemma with_soft_hard [simp]:
  "calculateHardConstraintViolations (with_soft cs t s) = calculateHardConstraintViolations s"
  by (simp add: calculateHardConstraintViolations_def hard_H3_def hard_H5_def)

section \<open>Scoring a swap\<close>

lemma isBetterFitness_iff:
  "isBetterFitness (a, b) (c, d) \<longleftrightarrow> a < c \<or> (a = c \<and> b < d)"
  by (auto simp: isBetterFitness_def)

lemma with_soft_with_soft [simp]: "with_soft cs t (with_soft cs' t' s) = with_soft cs t s"
  by (simp add: with_soft_def)

lemma computeNurseOnlyCosts_alt:
  "computeNurseOnlyCosts s =
     ebind (calculateMinimumSkillPenalty s) (\<lambda>s2.
     ebind (calculateContinuityOfCarePenalty s) (\<lambda>s3.
     ebind (calculateMaximumWorkloadPenalty s) (\<lambda>s4.
       if length (soft_constraints (solution s)) < 4 then Inl Undefined
       else ebind (calculateHardConstraintViolations s)
              (\<lambda>hard. Inr ((hard, sum_list ((soft_constraints (solution s))[1 := s2, 2 := s3, 3 := s4])),
                   with_soft ((soft_constraints (solution s))[1 := s2, 2 := s3, 3 := s4])
                     (sum_list ((soft_constraints (solution s))[1 := s2, 2 := s3, 3 := s4])) s)))))"
  unfolding computeNurseOnlyCosts_def Let_def with_soft_def [symmetric]
  by (simp cong: if_cong)

lemma computeNurseOnlyCosts_with_soft:
  assumes "\<forall>a b c. cs[Suc 0 := a, 2 := b, 3 := c] = (soft_constraints (solution s))[Suc 0 := a, 2 := b, 3 := c]"
  shows "computeNurseOnlyCosts (with_soft cs t s) = computeNurseOnlyCosts s"
proof -
  from assms have "length (cs[Suc 0 := 0, 2 := 0, 3 := 0]) =
                   length ((soft_constraints (solution s))[Suc 0 := 0, 2 := 0, 3 := 0])"
    by (simp only:)
  then have l: "length cs = length (soft_constraints (solution s))" by simp
  show ?thesis
    unfolding computeNurseOnlyCosts_alt
    by (simp add: l assms cong: if_cong)
qed

lemma overwrite3:
  "xs[Suc 0 := x, 2 := y, 3 := z, Suc 0 := a, 2 := b, 3 := c] = xs[Suc 0 := a, 2 := b, 3 := c]"
proof -
  have "xs[Suc 0 := x, 2 := y, 3 := z, Suc 0 := a] = xs[Suc 0 := a, 2 := y, 3 := z]"
    by (simp add: list_update_swap [of "Suc 0"])
  moreover have "xs[Suc 0 := a, 2 := y, 3 := z, 2 := b] = xs[Suc 0 := a, 2 := b, 3 := z]"
    by (simp add: list_update_swap [of 2])
  ultimately show ?thesis by simp
qed

lemma nurse_variant_refl [simp]: "nurse_variant s s"
  by (simp add: nurse_variant_def)

lemma applyNurses_variant:
  assumes "nurse_variant s0 s" "applyNurses s0 e = Inr s1'"
  shows "applyNurses s e =
           Inr (with_soft (soft_constraints (solution s)) (total_soft_constraints (solution s)) s1')"
proof -
  from assms(1) have p: "problem s = problem s0" by (simp add: nurse_variant_def)
  from assms(2) obtain nas where n: "nurse_assignments (nurses (problem s0)) (encoded_nurses e) 0 = Inr nas"
    and s1': "s1' = s0\<lparr>solution := (solution s0)\<lparr>sol_nurses := nas\<rparr>\<rparr>"
    by (auto simp: applyNurses_def ebind_eq_Inr)
  have "s\<lparr>solution := (solution s)\<lparr>sol_nurses := nas\<rparr>\<rparr> =
        with_soft (soft_constraints (solution s)) (total_soft_constraints (solution s))
          (s0\<lparr>solution := (solution s0)\<lparr>sol_nurses := nas\<rparr>\<rparr>)"
    using assms(1) unfolding nurse_variant_def with_soft_def
    by (cases s; cases s0; cases "solution s"; cases "solution s0") simp
  with n p s1' show ?thesis by (simp add: applyNurses_def)
qed

lemma applyNurses_variant_fault:
  assumes "nurse_variant s0 s" "applyNurses s0 e = Inl f"
  shows "applyNurses s e = Inl f"
proof -
  from assms(1) have p: "problem s = problem s0" by (simp add: nurse_variant_def)
  from assms(2) have "nurse_assignments (nurses (problem s0)) (encoded_nurses e) 0 = Inl f"
    by (cases "nurse_assignments (nurses (problem s0)) (encoded_nurses e) 0") (simp_all add: applyNurses_def)
  with p show ?thesis by (simp add: applyNurses_def)
qed

lemma applyNurses_frame:
  "applyNurses s e = Inr s1 \<Longrightarrow> nurse_variant s s1"
  by (auto simp: applyNurses_def ebind_eq_Inr nurse_variant_def)

lemma eval_variant:
  assumes "nurse_variant s0 s"
  shows "ebind (applyNurses s e) computeNurseOnlyCosts = ebind (applyNurses s0 e) computeNurseOnlyCosts"
proof (cases "applyNurses s0 e")
  case (Inl f)
  with applyNurses_variant_fault [OF assms Inl] show ?thesis by simp
next
  case (Inr s1')
  from applyNurses_frame [OF Inr] assms
  have "\<forall>a b c. (soft_constraints (solution s))[Suc 0 := a, 2 := b, 3 := c] =
                 (soft_constraints (solution s1'))[Suc 0 := a, 2 := b, 3 := c]"
    by (simp add: nurse_variant_def)
  from computeNurseOnlyCosts_with_soft [OF this] applyNurses_variant [OF assms Inr] Inr
  show ?thesis by simp
qed

lemma computeNurseOnlyCosts_variant:
  assumes "computeNurseOnlyCosts s1 = Inr (sc, s2)"
  shows "nurse_variant s1 s2"
  using assms unfolding computeNurseOnlyCosts_alt
  by (auto simp: ebind_eq_Inr nurse_variant_def overwrite3 split: if_splits)

lemma nurse_variant_trans: "nurse_variant a b \<Longrightarrow> nurse_variant b c \<Longrightarrow> nurse_variant a c"
  by (simp add: nurse_variant_def)

lemma swap_blocks_twice:
  assumes "i < length (encoded_nurses enc)" "j < length (encoded_nurses enc)"
  shows "swap_blocks (swap_blocks enc i j) i j = enc"
proof -
  have "(encoded_nurses enc)[i := encoded_nurses enc ! j, j := encoded_nurses enc ! i,
          i := (encoded_nurses enc)[i := encoded_nurses enc ! j, j := encoded_nurses enc ! i] ! j,
          j := (encoded_nurses enc)[i := encoded_nurses enc ! j, j := encoded_nurses enc ! i] ! i]
        = encoded_nurses enc"
    using assms by (intro nth_equalityI) (auto simp: nth_list_update)
  then show ?thesis by (simp add: swap_blocks_def)
qed

section \<open>The nurse local search\<close>

lemma swap_scores_eval:
  "swap_scores s enc (i, j) =
     ebind (ebind (applyNurses s (swap_blocks enc i j)) computeNurseOnlyCosts) (\<lambda>(scores, s2). Inr scores)"
  by (cases "applyNurses s (swap_blocks enc i j)") (simp_all add: swap_scores_def)

lemma search_swaps_step:
  assumes "meta ! i = meta ! j"
    and "search_swaps s enc meta hard0 soft0 ((i, j) # rest) = Inr (r, s', enc')"
  shows "\<exists>hardNew softNew s2.
           ebind (applyNurses s (swap_blocks enc i j)) computeNurseOnlyCosts = Inr ((hardNew, softNew), s2) \<and>
           (if isBetterFitness (hardNew, softNew) (hard0, soft0)
            then r = (hardNew, softNew) \<and> s' = s2 \<and> enc' = swap_blocks enc i j
            else search_swaps s2 (swap_blocks (swap_blocks enc i j) i j) meta hard0 soft0 rest
                   = Inr (r, s', enc'))"
proof -
  from assms obtain s1 where a: "applyNurses s (swap_blocks enc i j) = Inr s1"
    by (auto simp: ebind_eq_Inr Let_def)
  with assms obtain x where c: "computeNurseOnlyCosts s1 = Inr x"
    by (auto simp: ebind_eq_Inr Let_def)
  obtain hardNew softNew s2 where x: "x = ((hardNew, softNew), s2)" by (cases x) auto
  from assms a c x show ?thesis
    by (auto simp: Let_def isBetterFitness_iff)
qed

lemma search_swaps_first_improvement:
  assumes "nurse_variant s0 s"
    and "\<forall>ij\<in>set pairs. fst ij < length (encoded_nurses enc) \<and> snd ij < length (encoded_nurses enc)"
    and "search_swaps s enc meta hard0 soft0 pairs = Inr ((hard, soft), s', enc')"
  shows "\<exists>k\<le>length (filter (\<lambda>(i, j). meta ! i = meta ! j) pairs).
           (\<forall>m<k. \<exists>sc. swap_scores s0 enc (filter (\<lambda>(i, j). meta ! i = meta ! j) pairs ! m) = Inr sc \<and>
                    \<not> isBetterFitness sc (hard0, soft0)) \<and>
           (if k < length (filter (\<lambda>(i, j). meta ! i = meta ! j) pairs)
            then swap_scores s0 enc (filter (\<lambda>(i, j). meta ! i = meta ! j) pairs ! k) = Inr (hard, soft) \<and>
                 isBetterFitness (hard, soft) (hard0, soft0) \<and>
                 enc' = swap_blocks enc (fst (filter (\<lambda>(i, j). meta ! i = meta ! j) pairs ! k))
                                        (snd (filter (\<lambda>(i, j). meta ! i = meta ! j) pairs ! k))
            else (hard, soft) = (hard0, soft0) \<and> enc' = enc)"
  using assms
proof (induction pairs arbitrary: s)
  case Nil
  then show ?case by simp
next
  case (Cons ij rest)
  obtain i j where ij: "ij = (i, j)" by (cases ij)
  let ?cands = "filter (\<lambda>(i, j). meta ! i = meta ! j) rest"
  from Cons.prems(2) have rng: "\<forall>ij\<in>set rest. fst ij < length (encoded_nurses enc) \<and> snd ij < length (encoded_nurses enc)"
    and ir: "i < length (encoded_nurses enc)" "j < length (encoded_nurses enc)"
    using ij by simp_all
  show ?case
  proof (cases "meta ! i = meta ! j")
    case False
    with Cons.prems(3) ij have "search_swaps s enc meta hard0 soft0 rest = Inr ((hard, soft), s', enc')"
      by simp
    moreover have "filter (\<lambda>(i, j). meta ! i = meta ! j) (ij # rest) = ?cands"
      using False ij by simp
    ultimately show ?thesis
      using Cons.IH [OF Cons.prems(1) rng] by (simp only:)
  next
    case True
    from search_swaps_step [OF True Cons.prems(3) [unfolded ij]]
    obtain hardNew softNew s2 where
      e: "ebind (applyNurses s (swap_blocks enc i j)) computeNurseOnlyCosts = Inr ((hardNew, softNew), s2)"
      and r: "if isBetterFitness (hardNew, softNew) (hard0, soft0)
              then (hard, soft) = (hardNew, softNew) \<and> s' = s2 \<and> enc' = swap_blocks enc i j
              else search_swaps s2 (swap_blocks (swap_blocks enc i j) i j) meta hard0 soft0 rest
                     = Inr ((hard, soft), s', enc')"
      by blast
    from e eval_variant [OF Cons.prems(1), of "swap_blocks enc i j"]
    have e0: "ebind (applyNurses s0 (swap_blocks enc i j)) computeNurseOnlyCosts = Inr ((hardNew, softNew), s2)"
      by simp
    then have sc: "swap_scores s0 enc (i, j) = Inr (hardNew, softNew)"
      by (simp add: swap_scores_eval)
    have c: "filter (\<lambda>(i, j). meta ! i = meta ! j) (ij # rest) = (i, j) # ?cands"
      using True ij by simp
    show ?thesis
    proof (cases "isBetterFitness (hardNew, softNew) (hard0, soft0)")
      case True
      with r sc show ?thesis
        unfolding c by (intro exI [of _ 0]) simp
    next
      case False
      with r swap_blocks_twice [OF ir]
      have rest: "search_swaps s2 enc meta hard0 soft0 rest = Inr ((hard, soft), s', enc')" by simp
      from e0 obtain s1 where "applyNurses s0 (swap_blocks enc i j) = Inr s1"
        "computeNurseOnlyCosts s1 = Inr ((hardNew, softNew), s2)"
        by (auto simp: ebind_eq_Inr)
      with applyNurses_frame computeNurseOnlyCosts_variant have v: "nurse_variant s0 s2"
        using nurse_variant_trans by blast
      from Cons.IH [OF v rng rest] obtain k where
        k: "k \<le> length ?cands"
        "\<forall>m<k. \<exists>sc. swap_scores s0 enc (?cands ! m) = Inr sc \<and> \<not> isBetterFitness sc (hard0, soft0)"
        "if k < length ?cands
         then swap_scores s0 enc (?cands ! k) = Inr (hard, soft) \<and>
              isBetterFitness (hard, soft) (hard0, soft0) \<and>
              enc' = swap_blocks enc (fst (?cands ! k)) (snd (?cands ! k))
         else (hard, soft) = (hard0, soft0) \<and> enc' = enc"
        by blast
      have "\<forall>m<Suc k. \<exists>sc. swap_scores s0 enc (((i, j) # ?cands) ! m) = Inr sc \<and>
                \<not> isBetterFitness sc (hard0, soft0)"
      proof (intro allI impI)
        fix m
        assume "m < Suc k"
        show "\<exists>sc. swap_scores s0 enc (((i, j) # ?cands) ! m) = Inr sc \<and> \<not> isBetterFitness sc (hard0, soft0)"
        proof (cases m)
          case 0
          with sc False show ?thesis by simp
        next
          case (Suc m')
          with \<open>m < Suc k\<close> k(2) show ?thesis by simp
        qed
      qed
      with k(1,3) show ?thesis
        unfolding c by (intro exI [of _ "Suc k"]) simp
    qed
  qed
qed

lemma block_pairs_range:
  "(i, j) \<in> set (block_pairs n) \<longleftrightarrow> i < j \<and> j < n"
proof
  assume "(i, j) \<in> set (block_pairs n)"
  then show "i < j \<and> j < n" by (auto simp: block_pairs_def)
next
  assume a: "i < j \<and> j < n"
  then have "map (\<lambda>j. (i, j)) [Suc i..<n] \<in> set (map (\<lambda>i. map (\<lambda>j. (i, j)) [Suc i..<n]) [0..<n])"
    by simp
  moreover from a have "(i, j) \<in> set (map (\<lambda>j. (i, j)) [Suc i..<n])" by simp
  ultimately show "(i, j) \<in> set (block_pairs n)"
    unfolding block_pairs_def set_concat by (rule UN_I)
qed

text \<open>The pair of a block is the (day, shift) of its working shift.\<close>

lemma block_working_shift_nth:
  "block_working_shift ns k =
     (if k < length (concat (map working_shifts ns)) then Some (concat (map working_shifts ns) ! k)
      else None)"
proof (induction ns arbitrary: k)
  case Nil
  show ?case by simp
next
  case (Cons nurse ns)
  show ?case
  proof (cases "k < length (working_shifts nurse)")
    case True
    then show ?thesis by (simp add: nth_append)
  next
    case False
    then have "k < length (working_shifts nurse) + length (concat (map working_shifts ns)) \<longleftrightarrow>
               k - length (working_shifts nurse) < length (concat (map working_shifts ns))"
      by arith
    with False show ?thesis
      by (simp add: Cons.IH nth_append del: length_concat)
  qed
qed

lemma blockMeta_nth:
  assumes "blockMeta s n = Inr meta"
  shows "length (concat (map working_shifts (nurses (problem s)))) \<le> n"
    and "length meta = n"
    and "k < n \<Longrightarrow> meta ! k = block_day_shift (nurses (problem s)) k"
proof -
  let ?wss = "concat (map working_shifts (nurses (problem s)))"
  from assms have l: "length ?wss \<le> n"
    and m: "meta = map (\<lambda>ws. (ws_day ws, ws_shift ws)) ?wss @ replicate (n - length ?wss) (0, [])"
    by (auto simp: blockMeta_def Let_def split: if_splits)
  from l show "length ?wss \<le> n" .
  from l m show "length meta = n" by simp
  assume "k < n"
  with l m show "meta ! k = block_day_shift (nurses (problem s)) k"
    by (simp add: block_day_shift_def block_working_shift_nth nth_append)
qed

lemma sorted_wrt_concat_map:
  assumes "\<And>x. x \<in> set xs \<Longrightarrow> sorted_wrt R (f x)"
    and "sorted_wrt (\<lambda>x y. \<forall>a\<in>set (f x). \<forall>b\<in>set (f y). R a b) xs"
  shows "sorted_wrt R (concat (map f xs))"
  using assms
proof (induction xs)
  case Nil
  show ?case by simp
next
  case (Cons x xs)
  then show ?case
    by (auto simp: sorted_wrt_append)
qed

lemma block_pairs_sorted: "sorted_wrt loop_order (block_pairs n)"
  unfolding block_pairs_def
proof (rule sorted_wrt_concat_map)
  fix i
  show "sorted_wrt loop_order (map (\<lambda>j. (i, j)) [Suc i..<n])"
    by (simp add: sorted_wrt_map loop_order_def sorted_wrt_iff_nth_less)
next
  show "sorted_wrt (\<lambda>x y. \<forall>a\<in>set (map (Pair x) [Suc x..<n]). \<forall>b\<in>set (map (Pair y) [Suc y..<n]). loop_order a b) [0..<n]"
    by (simp add: sorted_wrt_iff_nth_less loop_order_def)
qed

lemma swap_candidates_sorted: "sorted_wrt loop_order (swap_candidates ns n)"
  unfolding swap_candidates_def by (rule sorted_wrt_filter [OF block_pairs_sorted])

lemma swap_candidates_set:
  "(i, j) \<in> set (swap_candidates ns n) \<longleftrightarrow>
     i < j \<and> j < n \<and> block_day_shift ns i = block_day_shift ns j"
  by (auto simp: swap_candidates_def block_pairs_range)

lemma swap_candidates_meta:
  assumes "blockMeta s n = Inr meta"
  shows "filter (\<lambda>(i, j). meta ! i = meta ! j) (block_pairs n) = swap_candidates (nurses (problem s)) n"
  unfolding swap_candidates_def
proof (rule filter_cong [OF refl])
  fix ij
  assume a: "ij \<in> set (block_pairs n)"
  obtain i j where ij: "ij = (i, j)" by (cases ij)
  with a block_pairs_range have "i < n" "j < n" by auto
  with blockMeta_nth(3) [OF assms] ij
  show "(case ij of (i, j) \<Rightarrow> meta ! i = meta ! j) =
        (case ij of (i, j) \<Rightarrow> block_day_shift (nurses (problem s)) i = block_day_shift (nurses (problem s)) j)"
    by simp
qed

text \<open>Applying the nurses gives block \<open>k\<close> to the \<open>k\<close>-th working shift.\<close>

lemma shift_assignments_blocks:
  "shift_assignments wss blocks idx = Inr (sas, idx') \<Longrightarrow>
   idx' = idx + length wss \<and>
   sas = map (block_assignment blocks) (zip wss [idx..<idx + length wss])"
proof (induction wss arbitrary: idx sas idx')
  case Nil
  then show ?case by simp
next
  case (Cons ws wss)
  from Cons.prems obtain x where x: "shift_assignments wss blocks (Suc idx) = Inr x"
    by (auto simp: ebind_eq_Inr split: if_splits)
  obtain sas1 i1 where x': "x = (sas1, i1)" by (cases x)
  from Cons.IH [of "Suc idx" sas1 i1] x x'
  have i1: "i1 = Suc idx + length wss"
    and s1: "sas1 = map (block_assignment blocks) (zip wss [Suc idx..<Suc idx + length wss])" by simp_all
  have "[idx..<idx + Suc (length wss)] = idx # [Suc idx..<idx + Suc (length wss)]"
    by (rule upt_conv_Cons) simp
  then have u: "[idx..<idx + length (ws # wss)] = idx # [Suc idx..<Suc idx + length wss]"
    by simp
  from Cons.prems x x' i1 s1 show ?case
    unfolding u by (auto simp: block_assignment_def split: if_splits)
qed

lemma nurse_assignments_blocks:
  "nurse_assignments ns blocks idx = Inr nas \<Longrightarrow>
   concat (map assignments nas) =
     map (block_assignment blocks)
       (zip (concat (map working_shifts ns)) [idx..<idx + length (concat (map working_shifts ns))])"
proof (induction ns arbitrary: idx nas)
  case Nil
  then show ?case by simp
next
  case (Cons n ns)
  from Cons.prems obtain x where x: "shift_assignments (working_shifts n) blocks idx = Inr x"
    by (auto simp: ebind_eq_Inr)
  obtain sas i1 where x': "x = (sas, i1)" by (cases x)
  with Cons.prems x obtain nas1 where r: "nurse_assignments ns blocks i1 = Inr nas1"
    and nas: "nas = \<lparr>na_id = nurse_id n, assignments = sas\<rparr> # nas1"
    by (auto simp: ebind_eq_Inr)
  from shift_assignments_blocks [of "working_shifts n" blocks idx sas i1] x x'
  have i1: "i1 = idx + length (working_shifts n)"
    and sas: "sas = map (block_assignment blocks) (zip (working_shifts n) [idx..<idx + length (working_shifts n)])"
    by simp_all
  let ?a = "length (working_shifts n)" and ?b = "length (concat (map working_shifts ns))"
  have u: "[idx..<idx + (?a + ?b)] = [idx..<idx + ?a] @ [idx + ?a..<idx + ?a + ?b]"
    by (metis add.assoc le_add1 upt_add_eq_append)
  have l: "length (concat (map working_shifts (n # ns))) = ?a + ?b"
    by (simp del: length_concat)
  have "concat (map assignments nas) = sas @ concat (map assignments nas1)"
    using nas by simp
  also have "\<dots> = map (block_assignment blocks) (zip (working_shifts n) [idx..<idx + ?a]) @
                  map (block_assignment blocks) (zip (concat (map working_shifts ns)) [idx + ?a..<idx + ?a + ?b])"
    using Cons.IH [OF r] sas i1 by simp
  also have "\<dots> = map (block_assignment blocks)
                    (zip (concat (map working_shifts (n # ns))) [idx..<idx + length (concat (map working_shifts (n # ns)))])"
    unfolding l u by (simp add: zip_append del: length_concat)
  finally show ?case .
qed

lemma applyNurses_blocks:
  assumes "applyNurses s enc = Inr s1"
    and "block_working_shift (nurses (problem s)) k = Some ws"
  shows "k < length (concat (map assignments (sol_nurses (solution s1))))"
    and "concat (map assignments (sol_nurses (solution s1))) ! k =
           \<lparr>sa_day = ws_day ws, sa_shift = ws_shift ws, sa_rooms = encoded_nurses enc ! k\<rparr>"
proof -
  let ?wss = "concat (map working_shifts (nurses (problem s)))"
  from assms(1) obtain nas where n: "nurse_assignments (nurses (problem s)) (encoded_nurses enc) 0 = Inr nas"
    and s1: "sol_nurses (solution s1) = nas"
    by (auto simp: applyNurses_def ebind_eq_Inr)
  from nurse_assignments_blocks [OF n]
  have c: "concat (map assignments nas) =
             map (block_assignment (encoded_nurses enc)) (zip ?wss [0..<length ?wss])"
    by simp
  from assms(2) have k: "k < length ?wss" and ws: "ws = ?wss ! k"
    by (simp_all add: block_working_shift_nth split: if_splits)
  from c k s1 show "k < length (concat (map assignments (sol_nurses (solution s1))))"
    by (simp del: length_concat)
  from c k ws s1 show "concat (map assignments (sol_nurses (solution s1))) ! k =
           \<lparr>sa_day = ws_day ws, sa_shift = ws_shift ws, sa_rooms = encoded_nurses enc ! k\<rparr>"
    by (simp add: block_assignment_def del: length_concat)
qed

section \<open>The scores of a swap are those of a full evaluation\<close>

text \<open>The costs S1, S5, S6, S7 and S8 do not read the nurse assignments.\<close>

lemma with_nurses_fields [simp]:
  "problem (with_nurses nas s) = problem s"
  "originalProblem (with_nurses nas s) = originalProblem s"
  "roomStates (solution (with_nurses nas s)) = roomStates (solution s)"
  "theaterStates (solution (with_nurses nas s)) = theaterStates (solution s)"
  "sol_patients (solution (with_nurses nas s)) = sol_patients (solution s)"
  "sol_nurses (solution (with_nurses nas s)) = nas"
  "soft_constraints (solution (with_nurses nas s)) = soft_constraints (solution s)"
  "total_soft_constraints (solution (with_nurses nas s)) = total_soft_constraints (solution s)"
  by (simp_all add: with_nurses_def)

lemma with_nurses_S1 [simp]:
  "calculateAgeGroupPenalty (with_nurses nas s) = calculateAgeGroupPenalty s"
  by (simp add: calculateAgeGroupPenalty_def ageIndices_def cong: if_cong)

lemma with_nurses_S5 [simp]:
  "calculateOpenOperatingTheatersPenalty (with_nurses nas s) = calculateOpenOperatingTheatersPenalty s"
  by (simp add: calculateOpenOperatingTheatersPenalty_def)

lemma with_nurses_S6 [simp]:
  "calculateSurgeonTransferPenalty (with_nurses nas s) = calculateSurgeonTransferPenalty s"
  by (simp add: calculateSurgeonTransferPenalty_def surgeonToTheaters_def cong: if_cong)

lemma with_nurses_S7 [simp]:
  "calculateAdmissionDelayPenalty (with_nurses nas s) = calculateAdmissionDelayPenalty s"
proof -
  have "admission_delay (with_nurses nas s) = admission_delay s"
    by (simp add: fun_eq_iff admission_delay_def cong: option.case_cong)
  then show ?thesis by (simp add: calculateAdmissionDelayPenalty_def)
qed

lemma with_nurses_S8 [simp]:
  "calculateUnscheduledOptionalPatientsPenalty (with_nurses nas s) =
     calculateUnscheduledOptionalPatientsPenalty s"
proof -
  have "unscheduled_optional_patient (with_nurses nas s) = unscheduled_optional_patient s"
    by (simp add: fun_eq_iff unscheduled_optional_patient_def cong: option.case_cong if_cong)
  then show ?thesis by (simp add: calculateUnscheduledOptionalPatientsPenalty_def)
qed

lemma with_nurses_with_soft: "with_nurses nas (with_soft cs t s) = with_soft cs t (with_nurses nas s)"
  by (simp add: with_nurses_def with_soft_def)

lemma with_nurses_twice [simp]: "with_nurses nas (with_nurses nas' s) = with_nurses nas s"
  by (simp add: with_nurses_def)

lemma applyNurses_alt:
  "applyNurses s enc =
     ebind (nurse_assignments (nurses (problem s)) (encoded_nurses enc) 0) (\<lambda>nas. Inr (with_nurses nas s))"
  by (simp add: applyNurses_def with_nurses_def)

lemma calculateSoftConstraints_alt:
  "calculateSoftConstraints s =
     ebind (calculateMinimumSkillPenalty s) (\<lambda>s2.
     ebind (calculateContinuityOfCarePenalty s) (\<lambda>s3.
     ebind (calculateMaximumWorkloadPenalty s) (\<lambda>s4.
     ebind (calculateAdmissionDelayPenalty s) (\<lambda>s7.
     ebind (calculateUnscheduledOptionalPatientsPenalty s) (\<lambda>s8.
       Inr (sum_list [calculateAgeGroupPenalty s, s2, s3, s4,
                  calculateOpenOperatingTheatersPenalty s,
                  calculateSurgeonTransferPenalty s, s7, s8],
            with_soft [calculateAgeGroupPenalty s, s2, s3, s4,
                  calculateOpenOperatingTheatersPenalty s,
                  calculateSurgeonTransferPenalty s, s7, s8]
              (sum_list [calculateAgeGroupPenalty s, s2, s3, s4,
                  calculateOpenOperatingTheatersPenalty s,
                  calculateSurgeonTransferPenalty s, s7, s8]) s))))))"
  unfolding calculateSoftConstraints_def Let_def with_soft_def ..

lemma solve_decode_nurses:
  assumes "solve_decode s enc = Inr (locals, s3)"
  shows "\<exists>s2. sol_nurses (solution s2) = [] \<and> s3 = with_nurses (sol_nurses (solution s3)) s2 \<and>
           (\<forall>enc1. encoded_patients enc1 = encoded_patients enc \<longrightarrow>
              solve_decode s enc1 =
                ebind (nurse_assignments (nurses (problem s2)) (encoded_nurses enc1) 0)
                  (\<lambda>nas. Inr (locals, with_nurses nas s2)))"
proof -
  from assms obtain s0 mandatoryEnc optionalEnc mandatoryEnc' s1 optionalEnc' s2 nas where
    i: "initializeDynamicStates s = Inr s0"
    and sp: "splitEncoded (patients (problem s0)) (encoded_patients enc) = Inr (mandatoryEnc, optionalEnc)"
    and m: "processPatients repairMandatoryPatient s0 mandatoryEnc = Inr (mandatoryEnc', s1)"
    and opt: "processPatients repairOptionalPatient s1 optionalEnc = Inr (optionalEnc', s2)"
    and l: "locals = (mandatoryEnc', optionalEnc')"
    and s3: "s3 = s2\<lparr>solution := (solution s2)\<lparr>sol_nurses := sol_nurses (solution s2) @ nas\<rparr>\<rparr>"
    by (auto simp: solve_decode_def ebind_eq_Inr)
  note ri = initializeDynamicStates_result [OF i]
  note rm = processPatients_result [OF repairMandatoryPatient_contract m]
  note ro = processPatients_result [OF repairOptionalPatient_contract opt]
  from rm ro ri(4) have e: "sol_nurses (solution s2) = []" by (simp add: decode_step_def)
  from s3 e have "s3 = with_nurses (sol_nurses (solution s3)) s2"
    by (simp add: with_nurses_def)
  moreover have "\<forall>enc1. encoded_patients enc1 = encoded_patients enc \<longrightarrow>
              solve_decode s enc1 =
                ebind (nurse_assignments (nurses (problem s2)) (encoded_nurses enc1) 0)
                  (\<lambda>nas. Inr (locals, with_nurses nas s2))"
    using i sp m opt l e by (simp add: solve_decode_def with_nurses_def)
  ultimately show ?thesis using e by blast
qed

text \<open>
  In the solver that \<^verbatim>\<open>solve\<close> left, applying the nurses of an encoded solution with the
  same patient entries and computing the nurse-only costs gives the scores of a full
  \<^verbatim>\<open>solve\<close> of that encoded solution.
\<close>

lemma nurse_only_scores_full:
  assumes sv: "solve s enc = Inr ((hard0, soft0), s0, enc)"
    and ep: "encoded_patients enc1 = encoded_patients enc"
    and ev: "ebind (applyNurses s0 enc1) computeNurseOnlyCosts = Inr (sc, s2')"
  shows "\<exists>s1. solve s enc1 = Inr (sc, s1, enc1)"
proof -
  from sv obtain locals s3 where d: "solve_decode s enc = Inr (locals, s3)"
    and c: "calculateSoftConstraints s3 = Inr (soft0, s0)"
    by (auto simp: solve_def ebind_eq_Inr)
  from solve_decode_nurses [OF d] obtain s2 where
    s3: "s3 = with_nurses (sol_nurses (solution s3)) s2"
    and dec: "\<forall>enc1. encoded_patients enc1 = encoded_patients enc \<longrightarrow>
              solve_decode s enc1 =
                ebind (nurse_assignments (nurses (problem s2)) (encoded_nurses enc1) 0)
                  (\<lambda>nas. Inr (locals, with_nurses nas s2))"
    by blast
  define S1 where "S1 = calculateAgeGroupPenalty s2"
  define S5 where "S5 = calculateOpenOperatingTheatersPenalty s2"
  define S6 where "S6 = calculateSurgeonTransferPenalty s2"
  have fixed3: "calculateAgeGroupPenalty s3 = S1" "calculateOpenOperatingTheatersPenalty s3 = S5"
    "calculateSurgeonTransferPenalty s3 = S6"
    unfolding S1_def S5_def S6_def by (subst s3, simp)+
  have s78: "calculateAdmissionDelayPenalty s3 = calculateAdmissionDelayPenalty s2"
    "calculateUnscheduledOptionalPatientsPenalty s3 = calculateUnscheduledOptionalPatientsPenalty s2"
    by (subst s3, simp)+
  from c obtain a0 b0 c0 d0 e0 where
    s7: "calculateAdmissionDelayPenalty s2 = Inr d0"
    and s8: "calculateUnscheduledOptionalPatientsPenalty s2 = Inr e0"
    and s0: "s0 = with_soft [S1, a0, b0, c0, S5, S6, d0, e0] (sum_list [S1, a0, b0, c0, S5, S6, d0, e0]) s3"
    unfolding calculateSoftConstraints_alt fixed3 s78
    by (auto simp: ebind_eq_Inr)
  have p: "problem s0 = problem s2"
    by (subst s0, subst s3) simp
  from ev obtain nas1 where n: "nurse_assignments (nurses (problem s2)) (encoded_nurses enc1) 0 = Inr nas1"
    and cn: "computeNurseOnlyCosts (with_nurses nas1 s0) = Inr (sc, s2')"
    unfolding applyNurses_alt p by (auto simp: ebind_eq_Inr)
  let ?s3' = "with_nurses nas1 s2"
  have w: "with_nurses nas1 s0 =
           with_soft [S1, a0, b0, c0, S5, S6, d0, e0] (sum_list [S1, a0, b0, c0, S5, S6, d0, e0]) ?s3'"
    by (subst s0, subst s3) (simp add: with_nurses_with_soft)
  from cn obtain a b c' h where
    a: "calculateMinimumSkillPenalty ?s3' = Inr a"
    and b: "calculateContinuityOfCarePenalty ?s3' = Inr b"
    and c': "calculateMaximumWorkloadPenalty ?s3' = Inr c'"
    and h: "calculateHardConstraintViolations ?s3' = Inr h"
    and sc: "sc = (h, sum_list [S1, a, b, c', S5, S6, d0, e0])"
    unfolding w computeNurseOnlyCosts_alt
    by (auto simp: ebind_eq_Inr)
  from dec ep n have d1: "solve_decode s enc1 = Inr (locals, ?s3')" by simp
  have f: "calculateAgeGroupPenalty ?s3' = S1" "calculateOpenOperatingTheatersPenalty ?s3' = S5"
    "calculateSurgeonTransferPenalty ?s3' = S6"
    "calculateAdmissionDelayPenalty ?s3' = Inr d0"
    "calculateUnscheduledOptionalPatientsPenalty ?s3' = Inr e0"
    using s7 s8 by (simp_all add: S1_def S5_def S6_def)
  have "calculateSoftConstraints ?s3' =
          Inr (sum_list [S1, a, b, c', S5, S6, d0, e0],
               with_soft [S1, a, b, c', S5, S6, d0, e0] (sum_list [S1, a, b, c', S5, S6, d0, e0]) ?s3')"
    unfolding calculateSoftConstraints_alt a b c' f by simp
  with d1 h sc show ?thesis
    by (simp add: solve_def)
qed

lemma isBetterFitness_strictly_improves: "isBetterFitness new old = strictly_improves new old"
  by (auto simp: isBetterFitness_def strictly_improves_def)

lemma swap_blocks_exchanged:
  assumes "i < length (encoded_nurses enc)" "j < length (encoded_nurses enc)"
  shows "blocks_exchanged enc (i, j) (swap_blocks enc i j)"
proof -
  have "(encoded_nurses enc)[i := encoded_nurses enc ! j, j := encoded_nurses enc ! i] =
        map (\<lambda>k. if k = i then encoded_nurses enc ! j
                 else if k = j then encoded_nurses enc ! i
                 else encoded_nurses enc ! k)
          [0..<length (encoded_nurses enc)]"
    using assms by (intro nth_equalityI) (auto simp: nth_list_update)
  then show ?thesis by (simp add: blocks_exchanged_def swap_blocks_def)
qed

lemma swap_scores_full:
  assumes "solve s enc = Inr ((hard0, soft0), s0, enc)"
    and "swap_scores s0 enc (i, j) = Inr sc"
  shows "\<exists>s1. solve s (swap_blocks enc i j) = Inr (sc, s1, swap_blocks enc i j)"
proof -
  from assms(2) obtain s2 where
    "ebind (applyNurses s0 (swap_blocks enc i j)) computeNurseOnlyCosts = Inr (sc, s2)"
    unfolding swap_scores_eval by (auto simp: ebind_eq_Inr)
  moreover have "encoded_patients (swap_blocks enc i j) = encoded_patients enc"
    by (simp add: swap_blocks_def)
  ultimately show ?thesis
    using assms(1) by (intro nurse_only_scores_full)
qed

text \<open>
  C5. Let \<^verbatim>\<open>localSearchNurses\<close> return. Its candidates are exactly the pairs \<open>i < j\<close> of
  encoded nurse blocks whose working shifts have the same day and the same shift, taken
  in the order of the two loops; the working shift of a block is the one whose rooms the
  block holds when the nurses are applied. The scores that the search computes for a
  candidate are the scores that a full \<^verbatim>\<open>solve\<close> returns for the encoded solution with
  the two blocks exchanged; trials made before do not influence them. The search stops
  at the first candidate whose scores strictly improve over the pair of the initial
  \<^verbatim>\<open>solve\<close>, with strictly fewer hard violations or with equal hard violations and a
  strictly lower soft total: it returns those scores and leaves the two blocks
  exchanged. Every candidate before it was scored and did not improve. If no candidate
  improves it returns the pair of the initial \<^verbatim>\<open>solve\<close> and the encoded solution as it
  was. In both cases the hard count returned is at most the hard count of the initial
  \<^verbatim>\<open>solve\<close>.
\<close>

theorem localSearchNurses_first_improvement:
  assumes "localSearchNurses s enc = Inr ((hard, soft), s', enc')"
  shows "\<exists>hard0 soft0 s0 cands k.
           solve s enc = Inr ((hard0, soft0), s0, enc) \<and>
           cands = swap_candidates (nurses (problem s)) (length (encoded_nurses enc)) \<and>
           (\<forall>i j. (i, j) \<in> set cands \<longleftrightarrow>
                    i < j \<and> j < length (encoded_nurses enc) \<and>
                    block_day_shift (nurses (problem s)) i = block_day_shift (nurses (problem s)) j) \<and>
           sorted_wrt loop_order cands \<and>
           k \<le> length cands \<and>
           (\<forall>m<k. \<exists>enc1 sc s1.
               blocks_exchanged enc (cands ! m) enc1 \<and> solve s enc1 = Inr (sc, s1, enc1) \<and>
               \<not> strictly_improves sc (hard0, soft0)) \<and>
           (if k < length cands
            then blocks_exchanged enc (cands ! k) enc' \<and>
                 (\<exists>s1. solve s enc' = Inr ((hard, soft), s1, enc')) \<and>
                 strictly_improves (hard, soft) (hard0, soft0)
            else (hard, soft) = (hard0, soft0) \<and> enc' = enc) \<and>
           hard \<le> hard0"
proof -
  let ?n = "length (encoded_nurses enc)"
  let ?cands = "swap_candidates (nurses (problem s)) ?n"
  from assms obtain x where x: "solve s enc = Inr x"
    by (auto simp: localSearchNurses_def ebind_eq_Inr)
  obtain hard0 soft0 s0 e0 where x': "x = ((hard0, soft0), s0, e0)" by (cases x) auto
  from x x' solve_result(1) have e0: "e0 = enc" by blast
  with x x' have sv: "solve s enc = Inr ((hard0, soft0), s0, enc)" by simp
  from same_instance_fields(4) [OF solve_result(2) [OF sv]]
  have ns: "nurses (problem s0) = nurses (problem s)" .
  from sv assms obtain meta where m: "blockMeta s0 ?n = Inr meta"
    and ss: "search_swaps s0 enc meta hard0 soft0 (block_pairs ?n) = Inr ((hard, soft), s', enc')"
    by (auto simp: localSearchNurses_def ebind_eq_Inr)
  have f: "filter (\<lambda>(i, j). meta ! i = meta ! j) (block_pairs ?n) = ?cands"
    using swap_candidates_meta [OF m] ns by simp
  have rng: "\<forall>ij\<in>set (block_pairs ?n). fst ij < ?n \<and> snd ij < ?n"
    using block_pairs_range by fastforce
  from search_swaps_first_improvement [OF nurse_variant_refl rng ss]
  obtain k where
    k: "k \<le> length ?cands"
       "\<forall>m<k. \<exists>sc. swap_scores s0 enc (?cands ! m) = Inr sc \<and> \<not> isBetterFitness sc (hard0, soft0)"
       "if k < length ?cands
        then swap_scores s0 enc (?cands ! k) = Inr (hard, soft) \<and>
             isBetterFitness (hard, soft) (hard0, soft0) \<and>
             enc' = swap_blocks enc (fst (?cands ! k)) (snd (?cands ! k))
        else (hard, soft) = (hard0, soft0) \<and> enc' = enc"
    unfolding f by blast
  from k(3) have le: "hard \<le> hard0"
    by (auto simp: isBetterFitness_iff split: if_splits)
  have c: "\<forall>i j. (i, j) \<in> set ?cands \<longleftrightarrow>
             i < j \<and> j < ?n \<and> block_day_shift (nurses (problem s)) i = block_day_shift (nurses (problem s)) j"
    by (simp add: swap_candidates_set)
  have o: "sorted_wrt loop_order ?cands" by (rule swap_candidates_sorted)
  have inr: "\<And>m. m < length ?cands \<Longrightarrow> fst (?cands ! m) < ?n \<and> snd (?cands ! m) < ?n"
  proof -
    fix m
    assume "m < length ?cands"
    then have "(fst (?cands ! m), snd (?cands ! m)) \<in> set ?cands" by simp
    then show "fst (?cands ! m) < ?n \<and> snd (?cands ! m) < ?n"
      unfolding swap_candidates_set by simp
  qed
  have before: "\<forall>m<k. \<exists>enc1 sc s1.
               blocks_exchanged enc (?cands ! m) enc1 \<and> solve s enc1 = Inr (sc, s1, enc1) \<and>
               \<not> strictly_improves sc (hard0, soft0)"
  proof (intro allI impI)
    fix m
    assume mk: "m < k"
    with k(2) obtain sc where sc: "swap_scores s0 enc (?cands ! m) = Inr sc"
      and nb: "\<not> isBetterFitness sc (hard0, soft0)" by blast
    let ?i = "fst (?cands ! m)" and ?j = "snd (?cands ! m)"
    from mk k(1) inr [of m] have r: "?i < ?n" "?j < ?n" by simp_all
    from sc have "swap_scores s0 enc (?i, ?j) = Inr sc" by simp
    from swap_scores_full [OF sv this] obtain s1 where
      "solve s (swap_blocks enc ?i ?j) = Inr (sc, s1, swap_blocks enc ?i ?j)" ..
    moreover from swap_blocks_exchanged [OF r]
    have "blocks_exchanged enc (?cands ! m) (swap_blocks enc ?i ?j)" by simp
    ultimately show "\<exists>enc1 sc s1.
               blocks_exchanged enc (?cands ! m) enc1 \<and> solve s enc1 = Inr (sc, s1, enc1) \<and>
               \<not> strictly_improves sc (hard0, soft0)"
      using nb unfolding isBetterFitness_strictly_improves by blast
  qed
  have at: "if k < length ?cands
            then blocks_exchanged enc (?cands ! k) enc' \<and>
                 (\<exists>s1. solve s enc' = Inr ((hard, soft), s1, enc')) \<and>
                 strictly_improves (hard, soft) (hard0, soft0)
            else (hard, soft) = (hard0, soft0) \<and> enc' = enc"
  proof (cases "k < length ?cands")
    case False
    with k(3) show ?thesis by simp
  next
    case True
    let ?i = "fst (?cands ! k)" and ?j = "snd (?cands ! k)"
    from True k(3) have sc: "swap_scores s0 enc (?cands ! k) = Inr (hard, soft)"
      and b: "isBetterFitness (hard, soft) (hard0, soft0)"
      and e: "enc' = swap_blocks enc ?i ?j" by simp_all
    from inr [OF True] have r: "?i < ?n" "?j < ?n" by simp_all
    from sc have "swap_scores s0 enc (?i, ?j) = Inr (hard, soft)" by simp
    from swap_scores_full [OF sv this] e
    have "\<exists>s1. solve s enc' = Inr ((hard, soft), s1, enc')" by simp
    moreover from swap_blocks_exchanged [OF r] e
    have "blocks_exchanged enc (?cands ! k) enc'" by simp
    ultimately show ?thesis
      using True b unfolding isBetterFitness_strictly_improves by simp
  qed
  show ?thesis
    apply (rule exI [of _ hard0], rule exI [of _ soft0], rule exI [of _ s0],
           rule exI [of _ ?cands], rule exI [of _ k])
    apply (intro conjI)
           apply (rule sv)
          apply (rule refl)
         apply (rule c)
        apply (rule o)
       apply (rule k(1))
      apply (rule before)
     apply (rule at)
    apply (rule le)
    done
qed

theorem localSearchNurses_first_improvement_witness:
  "\<exists>s' enc' s0 s1.
      localSearchNurses (new_Solver W_problem) W_encoded = Inr ((0, 4), s', enc') \<and>
      encoded_nurses enc' = [[], [''r1'']] \<and>
      solve (new_Solver W_problem) W_encoded = Inr ((0, 6), s0, W_encoded) \<and>
      swap_candidates (nurses (problem (new_Solver W_problem))) (length (encoded_nurses W_encoded)) = [(0, 1)] \<and>
      blocks_exchanged W_encoded (0, 1) enc' \<and>
      solve (new_Solver W_problem) enc' = Inr ((0, 4), s1, enc') \<and>
      strictly_improves (0, 4) (0, 6)"
proof -
  let ?ns = "nurses (problem (new_Solver W_problem))" and ?n = "length (encoded_nurses W_encoded)"
  have a: "map_sum id (\<lambda>(r, s, e). (r, encoded_nurses e)) (localSearchNurses (new_Solver W_problem) W_encoded)
             = Inr ((0, 4), [[], [''r1'']])"
    by code_simp
  then obtain s' enc' where r: "localSearchNurses (new_Solver W_problem) W_encoded = Inr ((0, 4), s', enc')"
    and e: "encoded_nurses enc' = [[], [''r1'']]"
    by (cases "localSearchNurses (new_Solver W_problem) W_encoded") auto
  have c: "swap_candidates ?ns ?n = [(0, 1)]"
    by code_simp
  have b: "map_sum id fst (solve (new_Solver W_problem) W_encoded) = Inr (0, 6)"
    by code_simp
  from localSearchNurses_first_improvement [OF r] obtain hard0 soft0 s0 cands k where
    all: "solve (new_Solver W_problem) W_encoded = Inr ((hard0, soft0), s0, W_encoded) \<and>
          cands = swap_candidates ?ns ?n \<and>
          (\<forall>i j. (i, j) \<in> set cands \<longleftrightarrow>
                   i < j \<and> j < ?n \<and> block_day_shift ?ns i = block_day_shift ?ns j) \<and>
          sorted_wrt loop_order cands \<and>
          k \<le> length cands \<and>
          (\<forall>m<k. \<exists>enc1 sc s1.
               blocks_exchanged W_encoded (cands ! m) enc1 \<and>
               solve (new_Solver W_problem) enc1 = Inr (sc, s1, enc1) \<and>
               \<not> strictly_improves sc (hard0, soft0)) \<and>
          (if k < length cands
           then blocks_exchanged W_encoded (cands ! k) enc' \<and>
                (\<exists>s1. solve (new_Solver W_problem) enc' = Inr ((0, 4), s1, enc')) \<and>
                strictly_improves (0, 4) (hard0, soft0)
           else (0, 4) = (hard0, soft0) \<and> enc' = W_encoded) \<and>
          0 \<le> hard0"
    by (elim exE) (rule that)
  from all have sv: "solve (new_Solver W_problem) W_encoded = Inr ((hard0, soft0), s0, W_encoded)"
    and cd: "cands = swap_candidates ?ns ?n"
    by simp_all
  from sv b have hs: "hard0 = 0" "soft0 = 6" by simp_all
  from cd c have cs: "cands = [(0, 1)]" by simp
  from all have i: "if k < length cands
           then blocks_exchanged W_encoded (cands ! k) enc' \<and>
                (\<exists>s1. solve (new_Solver W_problem) enc' = Inr ((0, 4), s1, enc')) \<and>
                strictly_improves (0, 4) (hard0, soft0)
           else (0, 4) = (hard0, soft0) \<and> enc' = W_encoded"
    by (elim conjE)
  have k0: "k = 0"
  proof (rule ccontr)
    assume "k \<noteq> 0"
    with i cs have "enc' = W_encoded" by simp
    with e show False by (simp add: W_encoded_def)
  qed
  with i cs hs have x: "blocks_exchanged W_encoded (0, 1) enc'"
    and y: "\<exists>s1. solve (new_Solver W_problem) enc' = Inr ((0, 4), s1, enc')"
    and z: "strictly_improves (0, 4) (0, 6)" by simp_all
  from y obtain s1 where "solve (new_Solver W_problem) enc' = Inr ((0, 4), s1, enc')" ..
  with r e sv hs c x z show ?thesis by blast
qed

text \<open>
  In the instance with three blocks the first nurse works day 0 and day 1 and the second
  nurse day 1. The room is occupied on day 1 and only the block of day 0 holds it.
  Exchanging the first two blocks would remove the hard violation, but they are blocks
  of different days: the only candidate is the pair of the two blocks of day 1, and the
  search returns the scores of the initial \<^verbatim>\<open>solve\<close> with the blocks as they were.
\<close>

lemma localSearchNurses_other_day_example:
  "swap_candidates (nurses W_problem3) 3 = [(1, 2)] \<and>
   map_sum id (\<lambda>(r, s, e). (r, encoded_nurses e)) (localSearchNurses (new_Solver W_problem3) W_encoded3)
     = Inr ((1, 3), [[''r1''], [], []]) \<and>
   blocks_exchanged W_encoded3 (0, 1) (W_encoded3\<lparr>encoded_nurses := [[], [''r1''], []]\<rparr>) \<and>
   map_sum id fst (solve (new_Solver W_problem3) (W_encoded3\<lparr>encoded_nurses := [[], [''r1''], []]\<rparr>))
     = Inr (0, 6)"
  by code_simp

section \<open>Nurse assignments follow the working shifts\<close>

lemma shift_assignments_shifts:
  "shift_assignments wss blocks idx = Inr (sas, idx') \<Longrightarrow>
   map sa_shift sas = map ws_shift wss \<and> map sa_day sas = map ws_day wss"
proof (induction wss arbitrary: idx sas idx')
  case Nil
  then show ?case by simp
next
  case (Cons ws wss)
  from Cons.prems obtain x where x: "shift_assignments wss blocks (Suc idx) = Inr x"
    by (auto simp: ebind_eq_Inr split: if_splits)
  obtain sas1 i1 where x': "x = (sas1, i1)" by (cases x)
  from Cons.IH [of "Suc idx" sas1 i1] x x' Cons.prems show ?case
    by (auto split: if_splits)
qed

lemma nurse_assignments_shifts:
  "nurse_assignments ns blocks idx = Inr nas \<Longrightarrow> na \<in> set nas \<Longrightarrow>
   \<exists>n\<in>set ns. set (map sa_shift (assignments na)) = set (map ws_shift (working_shifts n))"
proof (induction ns arbitrary: idx nas)
  case Nil
  then show ?case by simp
next
  case (Cons n ns)
  from Cons.prems(1) obtain x where x: "shift_assignments (working_shifts n) blocks idx = Inr x"
    by (auto simp: ebind_eq_Inr)
  obtain sas i1 where x': "x = (sas, i1)" by (cases x)
  with Cons.prems(1) x obtain nas1 where r: "nurse_assignments ns blocks i1 = Inr nas1"
    and nas: "nas = \<lparr>na_id = nurse_id n, assignments = sas\<rparr> # nas1"
    by (auto simp: ebind_eq_Inr)
  from Cons.prems(2) nas have "na = \<lparr>na_id = nurse_id n, assignments = sas\<rparr> \<or> na \<in> set nas1" by simp
  then show ?case
  proof
    assume "na = \<lparr>na_id = nurse_id n, assignments = sas\<rparr>"
    with shift_assignments_shifts [of "working_shifts n" blocks idx sas i1] x x'
    have "set (map sa_shift (assignments na)) = set (map ws_shift (working_shifts n))" by simp
    then show ?thesis by (intro bexI [of _ n]) simp_all
  next
    assume "na \<in> set nas1"
    from Cons.IH [OF r this] show ?thesis by auto
  qed
qed

lemma decoded_shifts_are_working_shifts:
  assumes "solve_decode s enc = Inr (locals, s3)" "na \<in> set (sol_nurses (solution s3))"
  shows "\<exists>n\<in>set (nurses (problem s)). set (map sa_shift (assignments na)) = set (map ws_shift (working_shifts n))"
proof -
  from assms(1) obtain s0 mandatoryEnc optionalEnc mandatoryEnc' s1 optionalEnc' s2 nas where
    i: "initializeDynamicStates s = Inr s0"
    and m: "processPatients repairMandatoryPatient s0 mandatoryEnc = Inr (mandatoryEnc', s1)"
    and opt: "processPatients repairOptionalPatient s1 optionalEnc = Inr (optionalEnc', s2)"
    and n: "nurse_assignments (nurses (problem s2)) (encoded_nurses enc) 0 = Inr nas"
    and s3: "s3 = s2\<lparr>solution := (solution s2)\<lparr>sol_nurses := sol_nurses (solution s2) @ nas\<rparr>\<rparr>"
    by (auto simp: solve_decode_def ebind_eq_Inr)
  note ri = initializeDynamicStates_result [OF i]
  note rm = processPatients_result [OF repairMandatoryPatient_contract m]
  note ro = processPatients_result [OF repairOptionalPatient_contract opt]
  from rm ro ri(4) have e: "sol_nurses (solution s2) = []" by (simp add: decode_step_def)
  from rm ro have "same_instance s0 s1" "same_instance s1 s2" by (simp_all add: decode_step_def)
  with ri(2) have "same_instance s s2" using same_instance_trans by blast
  from same_instance_fields(4) [OF this] n have "nurse_assignments (nurses (problem s)) (encoded_nurses enc) 0 = Inr nas"
    by simp
  moreover from s3 e assms(2) have "na \<in> set nas" by simp
  ultimately show ?thesis by (rule nurse_assignments_shifts)
qed

end
